theory Spec2Isabelle
  imports Main "HOL-Library.Char_ord" "HOL-Library.List_Lexorder"
begin

section \<open>Strings\<close>

text \<open>
  A Go \<open>string\<close> is a sequence of bytes, and so is an Isabelle \<open>string\<close>.  The
  functions of package \<open>strings\<close> that \<open>internal/gql/gql.go\<close> calls are written out here.
\<close>

definition HasPrefix :: "string \<Rightarrow> string \<Rightarrow> bool" where
  "HasPrefix s p = (take (length p) s = p)"

definition HasSuffix :: "string \<Rightarrow> string \<Rightarrow> bool" where
  "HasSuffix s p = (length p \<le> length s \<and> drop (length s - length p) s = p)"

fun Contains :: "string \<Rightarrow> string \<Rightarrow> bool" where
  "Contains [] sub = (sub = [])"
| "Contains (c # cs) sub = (HasPrefix (c # cs) sub \<or> Contains cs sub)"

text \<open>\<open>strings.Replace(s, old, new, 1)\<close>: only the first occurrence is replaced.\<close>

fun Replace1 :: "string \<Rightarrow> string \<Rightarrow> string \<Rightarrow> string" where
  "Replace1 [] old new = (if old = [] then new else [])"
| "Replace1 (c # cs) old new =
     (if HasPrefix (c # cs) old then new @ drop (length old) (c # cs)
      else c # Replace1 cs old new)"

text \<open>\<open>strings.ReplaceAll(s, old, new)\<close> for a non-empty \<open>old\<close>.\<close>

fun ReplaceAll :: "string \<Rightarrow> string \<Rightarrow> string \<Rightarrow> string" where
  "ReplaceAll [] old new = []"
| "ReplaceAll (c # cs) old new =
     (if old \<noteq> [] \<and> HasPrefix (c # cs) old
      then new @ ReplaceAll (drop (length old - 1) cs) old new
      else c # ReplaceAll cs old new)"

fun LastIndexByte :: "string \<Rightarrow> char \<Rightarrow> nat option" where
  "LastIndexByte [] c = None"
| "LastIndexByte (x # xs) c =
     (case LastIndexByte xs c of
        Some i \<Rightarrow> Some (Suc i)
      | None \<Rightarrow> if x = c then Some 0 else None)"

fun join :: "string \<Rightarrow> string list \<Rightarrow> string" where
  "join sep [] = []"
| "join sep [x] = x"
| "join sep (x # y # ys) = x @ sep @ join sep (y # ys)"

definition byte :: "char \<Rightarrow> nat" where
  "byte c = of_char c"

section \<open>The URL value and its rendering\<close>

text \<open>
  \<open>GenerateWSAddr\<close> works on a \<open>*url.URL\<close>.  The struct and its methods \<open>String\<close> and
  \<open>Hostname\<close> belong to Go's standard library (package \<open>net/url\<close>), not to this
  repository; they are written out after the library's documented behaviour so that the
  address the function returns is a concrete string.
\<close>

record Userinfo =
  username :: string
  password :: string
  passwordSet :: bool

record URL =
  Scheme :: string
  Opaque :: string
  User :: "Userinfo option"
  Host :: string
  Path :: string
  RawPath :: string
  OmitHost :: bool
  ForceQuery :: bool
  RawQuery :: string
  Fragment :: string
  RawFragment :: string

datatype encoding =
    encodePath | encodePathSegment | encodeHost | encodeZone
  | encodeUserPassword | encodeQueryComponent | encodeFragment

definition alnum :: "char \<Rightarrow> bool" where
  "alnum c =
     ((97 \<le> byte c \<and> byte c \<le> 122) \<or> (65 \<le> byte c \<and> byte c \<le> 90)
      \<or> (48 \<le> byte c \<and> byte c \<le> 57))"

definition shouldEscape :: "char \<Rightarrow> encoding \<Rightarrow> bool" where
  "shouldEscape c mode =
     (if alnum c then False
      else if (mode = encodeHost \<or> mode = encodeZone)
              \<and> c \<in> set (''!$&()*+,;=:[]<>'' @ [CHR 0x27, CHR 0x22]) then False
      else if c \<in> set ''-_.~'' then False
      else if c \<in> set ''$&+,/:;=?@'' then
        (case mode of
           encodePath \<Rightarrow> c = CHR ''?''
         | encodePathSegment \<Rightarrow> c \<in> set ''/;,?''
         | encodeUserPassword \<Rightarrow> c \<in> set ''@/?:''
         | encodeQueryComponent \<Rightarrow> True
         | encodeFragment \<Rightarrow> False
         | _ \<Rightarrow> True)
      else if mode = encodeFragment \<and> c \<in> set ''!()*'' then False
      else True)"

definition upperhex :: string where
  "upperhex = ''0123456789ABCDEF''"

fun escape :: "string \<Rightarrow> encoding \<Rightarrow> string" where
  "escape [] mode = []"
| "escape (c # cs) mode =
     (if shouldEscape c mode then
        (if c = CHR '' '' \<and> mode = encodeQueryComponent then CHR ''+'' # escape cs mode
         else CHR ''%'' # upperhex ! (byte c div 16) # upperhex ! (byte c mod 16)
                # escape cs mode)
      else c # escape cs mode)"

definition ishex :: "char \<Rightarrow> bool" where
  "ishex c =
     ((48 \<le> byte c \<and> byte c \<le> 57) \<or> (97 \<le> byte c \<and> byte c \<le> 102)
      \<or> (65 \<le> byte c \<and> byte c \<le> 70))"

definition unhex :: "char \<Rightarrow> nat" where
  "unhex c =
     (if 48 \<le> byte c \<and> byte c \<le> 57 then byte c - 48
      else if 97 \<le> byte c \<and> byte c \<le> 102 then byte c - 97 + 10
      else if 65 \<le> byte c \<and> byte c \<le> 70 then byte c - 65 + 10
      else 0)"

text \<open>\<open>unescape\<close> fails (\<open>None\<close>) on a malformed escape or a byte the mode forbids.\<close>

fun unescape :: "string \<Rightarrow> encoding \<Rightarrow> string option" where
  "unescape [] mode = Some []"
| "unescape (c # cs) mode =
     (if c = CHR ''%'' then
        (case cs of
           a # b # rest \<Rightarrow>
             if \<not> (ishex a \<and> ishex b) then None
             else if mode = encodeHost \<and> unhex a < 8 \<and> [a, b] \<noteq> ''25'' then None
             else if mode = encodeZone \<and> [a, b] \<noteq> ''25'' \<and> unhex a * 16 + unhex b \<noteq> 32
                     \<and> shouldEscape (char_of (unhex a * 16 + unhex b)) encodeHost then None
             else map_option ((#) (char_of (unhex a * 16 + unhex b))) (unescape rest mode)
         | _ \<Rightarrow> None)
      else if c = CHR ''+'' then
        map_option ((#) (if mode = encodeQueryComponent then CHR '' '' else CHR ''+''))
          (unescape cs mode)
      else if (mode = encodeHost \<or> mode = encodeZone) \<and> byte c < 128
              \<and> shouldEscape c encodeHost then None
      else map_option ((#) c) (unescape cs mode))"

definition validEncoded :: "string \<Rightarrow> encoding \<Rightarrow> bool" where
  "validEncoded s mode =
     list_all (\<lambda>c. if c \<in> set (''!$&()*+,;=:@[]%'' @ [CHR 0x27]) then True
                    else \<not> shouldEscape c mode) s"

definition EscapedPath :: "URL \<Rightarrow> string" where
  "EscapedPath u =
     (if RawPath u \<noteq> [] \<and> validEncoded (RawPath u) encodePath
         \<and> unescape (RawPath u) encodePath = Some (Path u) then RawPath u
      else if Path u = ''*'' then ''*''
      else escape (Path u) encodePath)"

definition EscapedFragment :: "URL \<Rightarrow> string" where
  "EscapedFragment u =
     (if RawFragment u \<noteq> [] \<and> validEncoded (RawFragment u) encodeFragment
         \<and> unescape (RawFragment u) encodeFragment = Some (Fragment u) then RawFragment u
      else escape (Fragment u) encodeFragment)"

definition Userinfo_String :: "Userinfo \<Rightarrow> string" where
  "Userinfo_String ui =
     escape (username ui) encodeUserPassword
     @ (if passwordSet ui then '':'' @ escape (password ui) encodeUserPassword else [])"

text \<open>
  \<open>URL.String\<close>: scheme, then the opaque part or authority and path, then query and
  fragment; \<open>authority\<close> is what the method writes between the scheme and the path.
\<close>

definition authority :: "URL \<Rightarrow> string" where
  "authority u =
     (if Scheme u \<noteq> [] \<or> Host u \<noteq> [] \<or> User u \<noteq> None then
        (if OmitHost u \<and> Host u = [] \<and> User u = None then []
         else (if Host u \<noteq> [] \<or> Path u \<noteq> [] \<or> User u \<noteq> None then ''//'' else [])
              @ (case User u of None \<Rightarrow> [] | Some ui \<Rightarrow> Userinfo_String ui @ ''@'')
              @ (if Host u \<noteq> [] then escape (Host u) encodeHost else []))
      else [])"

definition hierPart :: "URL \<Rightarrow> string \<Rightarrow> string" where
  "hierPart u buf =
     (let path = EscapedPath u;
          b = buf @ authority u;
          b1 = (if path \<noteq> [] \<and> hd path \<noteq> CHR ''/'' \<and> Host u \<noteq> [] then b @ ''/'' else b);
          b2 = (if b1 = [] \<and> Contains (takeWhile (\<lambda>c. c \<noteq> CHR ''/'') path) '':''
                then b1 @ ''./'' else b1)
      in b2 @ path)"

definition String :: "URL \<Rightarrow> string" where
  "String u =
     (let buf = (if Scheme u \<noteq> [] then Scheme u @ '':'' else []);
          buf1 = (if Opaque u \<noteq> [] then buf @ Opaque u else hierPart u buf);
          buf2 = (if ForceQuery u \<or> RawQuery u \<noteq> [] then buf1 @ ''?'' @ RawQuery u else buf1)
      in if Fragment u \<noteq> [] then buf2 @ ''#'' @ EscapedFragment u else buf2)"

definition validOptionalPort :: "string \<Rightarrow> bool" where
  "validOptionalPort port =
     (case port of
        [] \<Rightarrow> True
      | c # ds \<Rightarrow> c = CHR '':'' \<and> list_all (\<lambda>b. 48 \<le> byte b \<and> byte b \<le> 57) ds)"

definition Hostname :: "URL \<Rightarrow> string" where
  "Hostname u =
     (let host =
            (case LastIndexByte (Host u) (CHR '':'') of
               None \<Rightarrow> Host u
             | Some colon \<Rightarrow>
                 if validOptionalPort (drop colon (Host u)) then take colon (Host u)
                 else Host u)
      in if HasPrefix host ''['' \<and> HasSuffix host '']'' then butlast (tl host) else host)"

section \<open>Realtime address derivation\<close>

text \<open>
  \<open>GenerateWSAddr\<close> assigns to the fields of the URL it is handed and then renders it.
  The pointer's target after the call is the second component of the result.
\<close>

definition GenerateWSAddr :: "URL \<Rightarrow> string \<times> URL" where
  "GenerateWSAddr u =
     (let u1 = (if Contains (Host u) ''.appsync-api.'' \<and> Contains (Host u) ''.amazonaws.''
                then u\<lparr>Host := Replace1 (Host u) ''.appsync-api.'' ''.appsync-realtime-api.''\<rparr>
                else u\<lparr>Path := Path u @ ''/realtime''\<rparr>);
          u2 = (if Scheme u1 = ''https'' then u1\<lparr>Scheme := ''wss''\<rparr>
                else u1\<lparr>Scheme := ''ws''\<rparr>)
      in (String u2, u2))"

section \<open>Parsing plain endpoint addresses\<close>

text \<open>
  \<open>url.Parse\<close> is Go's standard library as well.  What it returns is written out
  only for addresses of the plain form \<open>scheme://host/path\<close>: a scheme that starts with a
  letter, a non-empty host of letters, digits, dots and hyphens, and a path (possibly
  empty) of unreserved characters and slashes, with no port, user, query, fragment or
  escape.  On these \<open>url.Parse\<close> succeeds, lower-cases the scheme and fills \<open>Scheme\<close>,
  \<open>Host\<close> and \<open>Path\<close> only.  \<open>None\<close> means that the address is outside this form,
  where nothing is said about \<open>url.Parse\<close>.
\<close>

definition isLetter :: "char \<Rightarrow> bool" where
  "isLetter c = ((97 \<le> byte c \<and> byte c \<le> 122) \<or> (65 \<le> byte c \<and> byte c \<le> 90))"

definition schemeChar :: "char \<Rightarrow> bool" where
  "schemeChar c = (alnum c \<or> c \<in> set ''+-.'')"

definition hostChar :: "char \<Rightarrow> bool" where
  "hostChar c = (alnum c \<or> c \<in> set ''-.'')"

definition pathChar :: "char \<Rightarrow> bool" where
  "pathChar c = (alnum c \<or> c \<in> set ''-._~/'')"

definition ToLower :: "string \<Rightarrow> string" where
  "ToLower s = map (\<lambda>c. if 65 \<le> byte c \<and> byte c \<le> 90 then char_of (byte c + 32) else c) s"

definition Parse :: "string \<Rightarrow> URL option" where
  "Parse rawURL =
     (let scheme = takeWhile (\<lambda>c. c \<noteq> CHR '':'') rawURL;
          rest = drop (length scheme + 1) rawURL;
          auth = takeWhile (\<lambda>c. c \<noteq> CHR ''/'') (drop 2 rest);
          path = dropWhile (\<lambda>c. c \<noteq> CHR ''/'') (drop 2 rest)
      in if scheme \<noteq> [] \<and> isLetter (hd scheme) \<and> list_all schemeChar scheme
            \<and> HasPrefix rest ''//'' \<and> auth \<noteq> [] \<and> list_all hostChar auth
            \<and> list_all pathChar path
         then Some \<lparr>Scheme = ToLower scheme, Opaque = [], User = None, Host = auth,
                     Path = path, RawPath = [], OmitHost = False, ForceQuery = False,
                     RawQuery = [], Fragment = [], RawFragment = []\<rparr>
         else None)"

text \<open>The host pattern of the managed gateway, as line 185 tests it.\<close>

definition managed :: "string \<Rightarrow> bool" where
  "managed host = (Contains host ''.appsync-api.'' \<and> Contains host ''.amazonaws.'')"

section \<open>JSON text and base64\<close>

text \<open>
  \<open>Subscribe\<close> serialises with \<open>json.Marshal\<close> and \<open>base64.URLEncoding\<close>, both of Go's
  standard library.  The parts it reaches are written out: how a string and a
  \<open>map[string]string\<close> are serialised, and the padded URL-safe base64 alphabet.
\<close>

definition RuneError :: nat where
  "RuneError = 0xFFFD"

text \<open>
  \<open>utf8.DecodeRuneInString\<close> on byte values: the rune and the number of bytes it takes.
  A byte that starts no well-formed sequence gives \<open>(RuneError, 1)\<close>.
\<close>

definition runeLen :: "nat \<Rightarrow> nat" where
  "runeLen s0 =
     (if s0 < 0x80 then 1
      else if 0xC2 \<le> s0 \<and> s0 \<le> 0xDF then 2
      else if 0xE0 \<le> s0 \<and> s0 \<le> 0xEF then 3
      else if 0xF0 \<le> s0 \<and> s0 \<le> 0xF4 then 4
      else 0)"

definition acceptLo :: "nat \<Rightarrow> nat" where
  "acceptLo s0 = (if s0 = 0xE0 then 0xA0 else if s0 = 0xF0 then 0x90 else 0x80)"

definition acceptHi :: "nat \<Rightarrow> nat" where
  "acceptHi s0 = (if s0 = 0xED then 0x9F else if s0 = 0xF4 then 0x8F else 0xBF)"

fun DecodeRune :: "nat list \<Rightarrow> nat \<times> nat" where
  "DecodeRune [] = (RuneError, 0)"
| "DecodeRune (s0 # t) =
     (if s0 < 0x80 then (s0, 1)
      else if runeLen s0 = 0 \<or> length (s0 # t) < runeLen s0 then (RuneError, 1)
      else
        (case t of
           [] \<Rightarrow> (RuneError, 1)
         | s1 # t1 \<Rightarrow>
             if s1 < acceptLo s0 \<or> acceptHi s0 < s1 then (RuneError, 1)
             else if runeLen s0 \<le> 2 then (s0 mod 32 * 64 + s1 mod 64, 2)
             else
               (case t1 of
                  [] \<Rightarrow> (RuneError, 1)
                | s2 # t2 \<Rightarrow>
                    if s2 < 0x80 \<or> 0xBF < s2 then (RuneError, 1)
                    else if runeLen s0 \<le> 3 then
                      (s0 mod 16 * 4096 + s1 mod 64 * 64 + s2 mod 64, 3)
                    else
                      (case t2 of
                         [] \<Rightarrow> (RuneError, 1)
                       | s3 # t3 \<Rightarrow>
                           if s3 < 0x80 \<or> 0xBF < s3 then (RuneError, 1)
                           else (s0 mod 8 * 262144 + s1 mod 64 * 4096 + s2 mod 64 * 64
                                  + s3 mod 64, 4)))))"

definition DecodeRuneInString :: "string \<Rightarrow> nat \<times> nat" where
  "DecodeRuneInString s = DecodeRune (map byte s)"

definition dquote :: char where
  "dquote = CHR 0x22"

definition backslash :: char where
  "backslash = CHR 0x5C"

definition hex :: string where
  "hex = ''0123456789abcdef''"

text \<open>
  The bytes \<open>json.Marshal\<close> copies unchanged (its \<open>htmlSafeSet\<close>): printable ASCII except
  the double quote, the backslash and the three HTML characters.
\<close>

definition htmlSafeSet :: "char \<Rightarrow> bool" where
  "htmlSafeSet b =
     (32 \<le> byte b \<and> byte b < 128
      \<and> b \<noteq> dquote \<and> b \<noteq> backslash \<and> b \<noteq> CHR ''&'' \<and> b \<noteq> CHR ''<'' \<and> b \<noteq> CHR ''>'')"

text \<open>
  The text between the quotes of a serialised string.  A byte that is not part of
  well-formed UTF-8 is written as the escape of U+FFFD; U+2028 and U+2029 are escaped;
  every other multi-byte sequence is copied.
\<close>

fun quoted :: "string \<Rightarrow> string" where
  "quoted [] = []"
| "quoted (b # bs) =
     (if byte b < 0x80 then
        (if htmlSafeSet b then b # quoted bs
         else if b = backslash \<or> b = dquote then backslash # b # quoted bs
         else if b = CHR 0x08 then backslash # CHR ''b'' # quoted bs
         else if b = CHR 0x0C then backslash # CHR ''f'' # quoted bs
         else if b = CHR 0x0A then backslash # CHR ''n'' # quoted bs
         else if b = CHR 0x0D then backslash # CHR ''r'' # quoted bs
         else if b = CHR 0x09 then backslash # CHR ''t'' # quoted bs
         else backslash # ''u00'' @ [hex ! (byte b div 16), hex ! (byte b mod 16)] @ quoted bs)
      else
        (case DecodeRuneInString (take 4 (b # bs)) of
           (c, n) \<Rightarrow>
             if c = RuneError \<and> n = 1 then backslash # ''ufffd'' @ quoted bs
             else if c = 0x2028 \<or> c = 0x2029 then
               backslash # ''u202'' @ [hex ! (c mod 16)] @ quoted (drop (n - 1) bs)
             else take n (b # bs) @ quoted (drop (n - 1) bs)))"

definition appendString :: "string \<Rightarrow> string" where
  "appendString s = dquote # quoted s @ [dquote]"

text \<open>
  A Go map is an association list with distinct keys here; \<open>json.Marshal\<close> writes its
  members in the byte order of their keys.
\<close>

definition Marshal_map :: "(string \<times> string) list \<Rightarrow> string" where
  "Marshal_map m =
     ''{'' @ join '','' (map (\<lambda>(k, v). appendString k @ '':'' @ appendString v)
                          (sort_key fst m)) @ ''}''"

definition encodeURL :: string where
  "encodeURL = ''ABCDEFGHIJKLMNOPQRSTUVWXYZabcdefghijklmnopqrstuvwxyz0123456789-_''"

text \<open>\<open>base64.URLEncoding.EncodeToString\<close>: three bytes to four letters, padded with \<open>=\<close>.\<close>

fun EncodeToString :: "string \<Rightarrow> string" where
  "EncodeToString [] = []"
| "EncodeToString [a] =
     (let v = byte a * 65536
      in [encodeURL ! (v div 262144), encodeURL ! (v div 4096 mod 64), CHR ''='', CHR ''=''])"
| "EncodeToString [a, b] =
     (let v = byte a * 65536 + byte b * 256
      in [encodeURL ! (v div 262144), encodeURL ! (v div 4096 mod 64),
          encodeURL ! (v div 64 mod 64), CHR ''=''])"
| "EncodeToString (a # b # c # rest) =
     (let v = byte a * 65536 + byte b * 256 + byte c
      in [encodeURL ! (v div 262144), encodeURL ! (v div 4096 mod 64),
          encodeURL ! (v div 64 mod 64), encodeURL ! (v mod 64)] @ EncodeToString rest)"

text \<open>
  The auth extension of \<open>Subscribe\<close> and the sub-protocol string it offers when dialling
  (lines 121 to 135 of \<open>gql.go\<close>).
\<close>

definition authExtOf :: "string \<Rightarrow> string \<Rightarrow> (string \<times> string) list" where
  "authExtOf hostname accessToken = [(''host'', hostname), (''Authorization'', accessToken)]"

definition subprotocol :: "(string \<times> string) list \<Rightarrow> string" where
  "subprotocol authExt =
     ''header-'' @ ReplaceAll (EncodeToString (Marshal_map authExt)) ''='' []"

section \<open>Reading a sub-protocol string back\<close>

text \<open>
  The code only writes the sub-protocol string; the specification also says what a
  reader recovers from it.  The reading side is written after the specification's
  words: strip the tag, decode unpadded URL-safe base64, parse the compact JSON object of
  strings.
\<close>

text \<open>\<open>base64.RawURLEncoding\<close>: the same letters as \<open>EncodeToString\<close>, without padding.\<close>

fun RawEncode :: "string \<Rightarrow> string" where
  "RawEncode [] = []"
| "RawEncode [a] =
     (let v = byte a * 65536
      in [encodeURL ! (v div 262144), encodeURL ! (v div 4096 mod 64)])"
| "RawEncode [a, b] =
     (let v = byte a * 65536 + byte b * 256
      in [encodeURL ! (v div 262144), encodeURL ! (v div 4096 mod 64),
          encodeURL ! (v div 64 mod 64)])"
| "RawEncode (a # b # c # rest) =
     (let v = byte a * 65536 + byte b * 256 + byte c
      in [encodeURL ! (v div 262144), encodeURL ! (v div 4096 mod 64),
          encodeURL ! (v div 64 mod 64), encodeURL ! (v mod 64)] @ RawEncode rest)"

definition decodeMap :: "char \<Rightarrow> nat option" where
  "decodeMap c =
     (if 65 \<le> byte c \<and> byte c \<le> 90 then Some (byte c - 65)
      else if 97 \<le> byte c \<and> byte c \<le> 122 then Some (byte c - 71)
      else if 48 \<le> byte c \<and> byte c \<le> 57 then Some (byte c + 4)
      else if c = CHR ''-'' then Some 62
      else if c = CHR ''_'' then Some 63
      else None)"

fun DecodeString :: "string \<Rightarrow> string option" where
  "DecodeString [] = Some []"
| "DecodeString [a] = None"
| "DecodeString [a, b] =
     (case (decodeMap a, decodeMap b) of
        (Some x, Some y) \<Rightarrow> Some [char_of ((x * 64 + y) div 16)]
      | _ \<Rightarrow> None)"
| "DecodeString [a, b, c] =
     (case (decodeMap a, decodeMap b, decodeMap c) of
        (Some x, Some y, Some z) \<Rightarrow>
          (let v = x * 4096 + y * 64 + z
           in Some [char_of (v div 1024), char_of (v div 4 mod 256)])
      | _ \<Rightarrow> None)"
| "DecodeString (a # b # c # d # rest) =
     (case (decodeMap a, decodeMap b, decodeMap c, decodeMap d) of
        (Some x, Some y, Some z, Some w) \<Rightarrow>
          (let v = x * 262144 + y * 4096 + z * 64 + w
           in map_option
                (\<lambda>t. char_of (v div 65536) # char_of (v div 256 mod 256) # char_of (v mod 256) # t)
                (DecodeString rest))
      | _ \<Rightarrow> None)"

text \<open>\<open>utf8.ValidString\<close>: no byte of the string decodes as an encoding error.\<close>

fun ValidString :: "string \<Rightarrow> bool" where
  "ValidString [] = True"
| "ValidString (b # bs) =
     (if byte b < 0x80 then ValidString bs
      else
        (case DecodeRuneInString (take 4 (b # bs)) of
           (c, n) \<Rightarrow> \<not> (c = RuneError \<and> n = 1) \<and> ValidString (drop (n - 1) bs)))"

text \<open>
  The UTF-8 encoding of a code point (\<open>utf8.AppendRune\<close>); a surrogate or a value past
  U+10FFFF is written as U+FFFD.
\<close>

definition EncodeRune :: "nat \<Rightarrow> string" where
  "EncodeRune r =
     (if r < 0x80 then [char_of r]
      else if r < 0x800 then [char_of (0xC0 + r div 64), char_of (0x80 + r mod 64)]
      else if (0xD800 \<le> r \<and> r \<le> 0xDFFF) \<or> 0x10FFFF < r then [CHR 0xEF, CHR 0xBF, CHR 0xBD]
      else if r < 0x10000 then
        [char_of (0xE0 + r div 4096), char_of (0x80 + r div 64 mod 64), char_of (0x80 + r mod 64)]
      else
        [char_of (0xF0 + r div 262144), char_of (0x80 + r div 4096 mod 64),
         char_of (0x80 + r div 64 mod 64), char_of (0x80 + r mod 64)])"

definition hexval :: "string \<Rightarrow> nat" where
  "hexval hs = foldl (\<lambda>v c. v * 16 + unhex c) 0 hs"

definition unescapeChar :: "char \<Rightarrow> char option" where
  "unescapeChar e =
     (if e = dquote \<or> e = backslash \<or> e = CHR ''/'' then Some e
      else if e = CHR ''b'' then Some (CHR 0x08)
      else if e = CHR ''f'' then Some (CHR 0x0C)
      else if e = CHR ''n'' then Some (CHR 0x0A)
      else if e = CHR ''r'' then Some (CHR 0x0D)
      else if e = CHR ''t'' then Some (CHR 0x09)
      else None)"

text \<open>
  Reading a JSON string from behind its opening quote: the bytes of the string and the
  text after the closing quote.  An escaped surrogate is read as U+FFFD; pairs of them,
  which the serialiser never writes, are not combined.
\<close>

fun unquote :: "string \<Rightarrow> (string \<times> string) option" where
  "unquote [] = None"
| "unquote (c # cs) =
     (if c = dquote then Some ([], cs)
      else if c = backslash then
        (case cs of
           [] \<Rightarrow> None
         | e # r \<Rightarrow>
             if e = CHR ''u'' then
               (if 4 \<le> length r \<and> list_all ishex (take 4 r) then
                  map_option (\<lambda>(s, rest). (EncodeRune (hexval (take 4 r)) @ s, rest))
                    (unquote (drop 4 r))
                else None)
             else
               (case unescapeChar e of
                  None \<Rightarrow> None
                | Some x \<Rightarrow> map_option (\<lambda>(s, rest). (x # s, rest)) (unquote r)))
      else if byte c < 0x20 then None
      else map_option (\<lambda>(s, rest). (c # s, rest)) (unquote cs))"

text \<open>
  The members of a compact JSON object whose values are strings, from behind the opening
  brace.  Every member takes at least one byte, so the length of the text is fuel enough.
\<close>

fun members :: "nat \<Rightarrow> string \<Rightarrow> ((string \<times> string) list \<times> string) option" where
  "members 0 s = None"
| "members (Suc fuel) s =
     (case s of
        [] \<Rightarrow> None
      | q # s1 \<Rightarrow>
          if q \<noteq> dquote then None
          else
            (case unquote s1 of
               None \<Rightarrow> None
             | Some (k, s2) \<Rightarrow>
                 if \<not> HasPrefix s2 [CHR '':'', dquote] then None
                 else
                   (case unquote (drop 2 s2) of
                      None \<Rightarrow> None
                    | Some (v, s4) \<Rightarrow>
                        (case s4 of
                           [] \<Rightarrow> None
                         | c # s5 \<Rightarrow>
                             if c = CHR ''}'' then Some ([(k, v)], s5)
                             else if c = CHR '','' then
                               map_option (\<lambda>(m, rest). ((k, v) # m, rest)) (members fuel s5)
                             else None))))"

definition Unmarshal_map :: "string \<Rightarrow> (string \<times> string) list option" where
  "Unmarshal_map s =
     (if s = ''{}'' then Some []
      else if \<not> HasPrefix s ''{'' then None
      else
        (case members (length s) (drop 1 s) of
           Some (m, []) \<Rightarrow> Some m
         | _ \<Rightarrow> None))"

definition readSubprotocol :: "string \<Rightarrow> (string \<times> string) list option" where
  "readSubprotocol s =
     (if \<not> HasPrefix s ''header-'' then None
      else
        (case DecodeString (drop 7 s) of
           None \<Rightarrow> None
         | Some j \<Rightarrow> Unmarshal_map j))"

section \<open>Control messages\<close>

record wsError =
  ErrorType :: string

record PayloadExtensions =
  Authorization :: "(string \<times> string) list"

text \<open>
  \<open>Data\<close> is a \<open>json.RawMessage\<close> (bytes, empty when absent); \<open>Errors\<close> is a slice of
  pointers, so an element may be nil.
\<close>

record Payload =
  Data :: string
  Extensions :: "PayloadExtensions option"
  Errors :: "wsError option list"

text \<open>\<open>Payload\<close> is a pointer in \<open>wsMessage\<close>: \<open>None\<close> is the nil pointer of a frame without one.\<close>

record wsMessage =
  Type :: string
  Payload :: "Payload option"
  ID :: string

section \<open>Errors, contexts and observable events\<close>

text \<open>
  An \<open>error\<close> is a value.  \<open>Lib\<close> stands for an error made outside this package (by
  the websocket, JSON or URL library, or by a callback); the other constructors are the
  ways \<open>gql.go\<close> builds one with \<open>fmt.Errorf\<close>.
\<close>

datatype error =
    Lib string
  | ErrUnexpected
  | Errorf string error
  | ErrorfAfter error string
  | ErrorfPayload error string "Payload option"

text \<open>
  \<open>Errorf t e\<close> is \<open>fmt.Errorf(t + ": %w", e)\<close>, \<open>ErrorfAfter e t\<close> is
  \<open>fmt.Errorf("%w: " + t, e)\<close>, and \<open>ErrorfPayload e t p\<close> is
  \<open>fmt.Errorf("%w: " + t + ": %q", e, p)\<close>.  \<open>Is\<close> is \<open>errors.Is\<close>.
\<close>

fun Is :: "error \<Rightarrow> error \<Rightarrow> bool" where
  "Is (Errorf t e) target = (Errorf t e = target \<or> Is e target)"
| "Is (ErrorfAfter e t) target = (ErrorfAfter e t = target \<or> Is e target)"
| "Is (ErrorfPayload e t p) target = (ErrorfPayload e t p = target \<or> Is e target)"
| "Is e target = (e = target)"

text \<open>
  \<open>Caller\<close> is the context handed to \<open>Subscribe\<close>, \<open>WithCancel c\<close> the one derived from
  it on line 113, \<open>Background\<close> is \<open>context.Background()\<close>.  \<open>isDone c callerDone
  cancelled\<close> tells whether \<open>c\<close> is done once the caller's context is done
  (\<open>callerDone\<close>: cancelled or past its deadline) or the derived context's \<open>cancel\<close> has
  been called.
\<close>

datatype "context" = Background | Caller | WithCancel "context"

fun isDone :: "context \<Rightarrow> bool \<Rightarrow> bool \<Rightarrow> bool" where
  "isDone Background callerDone cancelled = False"
| "isDone Caller callerDone cancelled = callerDone"
| "isDone (WithCancel c) callerDone cancelled = (cancelled \<or> isDone c callerDone cancelled)"

datatype level = Debug | Warn

datatype attr = Str string | Err "wsError option"

text \<open>
  The two places that call \<open>ws.Close\<close>: the deferred call of line 146 and the goroutine of
  lines 148 to 153 that waits for the context to be done.
\<close>

datatype closer = Deferred | Watcher

datatype event =
    Slog level string "(string \<times> attr) list"
  | Dial string "string list"
  | WriteJSON wsMessage
  | ReadJSON "wsMessage option"
  | OnReady "context"
  | OnData "context" "Payload option"
  | Close closer
  | Cancel

datatype outcome = Returns "error option" | Panics

section \<open>The connection as a script\<close>

text \<open>
  What the connection does to one call of \<open>read\<close>.  \<open>Arrives None\<close> is the JSON text
  \<open>null\<close>, which \<open>ReadJSON\<close> accepts and which leaves the \<open>*wsMessage\<close> nil.
  \<open>Interrupted e\<close>: the context became done while the read was blocked, the watcher
  goroutine closed the connection, and \<open>ReadJSON\<close> failed with \<open>e\<close>.  \<open>Cancelled e\<close>: the
  context became done before the read began, while the main goroutine was busy (in a
  write, a callback, a log line); the watcher goroutine closed the connection, and on the
  closed connection \<open>SetReadDeadline\<close> failed with \<open>e\<close>.
\<close>

datatype frame =
    SetReadDeadlineFails error
  | ReadJSONFails error
  | Interrupted error
  | Cancelled error
  | Arrives "wsMessage option"

datatype sendres = Sent | SetWriteDeadlineFails error | WriteJSONFails error

text \<open>
  When the script is exhausted the peer stays silent, and the read ends at its deadline
  of 60 seconds with this error.  So every run described here makes finitely many reads;
  a peer that keeps sending for ever (a keep-alive every few seconds, say) keeps the
  loops of \<open>gql.go\<close> running for ever, and of such a run the scripts describe every
  finite beginning.
\<close>

definition deadlineExceeded :: error where
  "deadlineExceeded = Lib ''i/o timeout''"

fun read :: "frame \<Rightarrow> (error + wsMessage option) \<times> event list" where
  "read (SetReadDeadlineFails e) = (Inl (Errorf ''failed to set read deadline'' e), [])"
| "read (ReadJSONFails e) = (Inl (Errorf ''failed to read JSON'' e), [])"
| "read (Interrupted e) = (Inl (Errorf ''failed to read JSON'' e), [Close Watcher])"
| "read (Cancelled e) = (Inl (Errorf ''failed to set read deadline'' e), [Close Watcher])"
| "read (Arrives m) = (Inr m, [ReadJSON m])"

definition readSilent :: error where
  "readSilent = Errorf ''failed to read JSON'' deadlineExceeded"

fun send :: "sendres \<Rightarrow> wsMessage \<Rightarrow> error option \<times> event list" where
  "send Sent msg = (None, [WriteJSON msg])"
| "send (SetWriteDeadlineFails e) msg = (Some (Errorf ''failed to set write deadline'' e), [])"
| "send (WriteJSONFails e) msg = (Some (Errorf ''failed to write JSON'' e), [WriteJSON msg])"

section \<open>The protocol state machine\<close>

record wsSubscriber =
  authExt :: "(string \<times> string) list"
  reqID :: string

definition unexpectedPacket :: "wsMessage \<Rightarrow> event" where
  "unexpectedPacket pkt = Slog Warn ''Received unexpected packet'' [(''type'', Str (Type pkt))]"

definition websocketErrors :: "Payload \<Rightarrow> event list" where
  "websocketErrors p =
     map (\<lambda>e. Slog Warn ''Received websocket error'' [(''error'', Err e)]) (Errors p)"

text \<open>The loop of \<open>initConnection\<close> (lines 205 to 219), one script entry per iteration.\<close>

fun initLoop :: "frame list \<Rightarrow> outcome \<times> event list \<times> frame list" where
  "initLoop [] = (Returns (Some (Errorf ''failed to read packet'' readSilent)), [], [])"
| "initLoop (f # fs) =
     (case read f of
        (Inl e, evs) \<Rightarrow> (Returns (Some (Errorf ''failed to read packet'' e)), evs, fs)
      | (Inr None, evs) \<Rightarrow> (Panics, evs, fs)
      | (Inr (Some pkt), evs) \<Rightarrow>
          if Type pkt = ''connection_ack'' then (Returns None, evs, fs)
          else if Type pkt = ''connection_error'' then
            (Returns (Some (ErrorfPayload ErrUnexpected ''connection error'' (Payload pkt))),
             evs, fs)
          else
            (case initLoop fs of
               (r, evs', fs') \<Rightarrow> (r, evs @ unexpectedPacket pkt # evs', fs')))"

definition initConnection :: "sendres \<Rightarrow> frame list \<Rightarrow> outcome \<times> event list \<times> frame list" where
  "initConnection s fs =
     (case send s \<lparr>Type = ''connection_init'', Payload = None, ID = []\<rparr> of
        (Some e, evs) \<Rightarrow> (Returns (Some (Errorf ''failed to send connection_init'' e)), evs, fs)
      | (None, evs) \<Rightarrow> (case initLoop fs of (r, evs', fs') \<Rightarrow> (r, evs @ evs', fs')))"

text \<open>The loop of \<open>start\<close> (lines 246 to 272).\<close>

fun startLoop :: "string \<Rightarrow> frame list \<Rightarrow> outcome \<times> event list \<times> frame list" where
  "startLoop rid [] = (Returns (Some (Errorf ''failed to read packet'' readSilent)), [], [])"
| "startLoop rid (f # fs) =
     (case read f of
        (Inl e, evs) \<Rightarrow> (Returns (Some (Errorf ''failed to read packet'' e)), evs, fs)
      | (Inr None, evs) \<Rightarrow> (Panics, evs, fs)
      | (Inr (Some pkt), evs) \<Rightarrow>
          if Type pkt = ''ka'' then
            (case startLoop rid fs of (r, evs', fs') \<Rightarrow> (r, evs @ evs', fs'))
          else if Type pkt = ''error'' then
            (case Payload pkt of
               None \<Rightarrow> (Panics, evs, fs)
             | Some p \<Rightarrow>
                 (Returns (Some (ErrorfAfter ErrUnexpected ''websocket error'')),
                  evs @ websocketErrors p, fs))
          else if Type pkt = ''start_ack'' then
            (if ID pkt \<noteq> rid then
               (case startLoop rid fs of
                  (r, evs', fs') \<Rightarrow>
                    (r, evs @ Slog Warn ''Received unexpected start_ack''
                              [(''got'', Str (ID pkt)), (''expected'', Str rid)] # evs', fs'))
             else (Returns None, evs, fs))
          else
            (case startLoop rid fs of
               (r, evs', fs') \<Rightarrow> (r, evs @ unexpectedPacket pkt # evs', fs')))"

text \<open>
  \<open>start\<close> takes the result of \<open>json.Marshal(subscription)\<close> as \<open>enc\<close>: the variables of a
  request are arbitrary Go values, and serialising them can fail.
\<close>

definition start ::
  "wsSubscriber \<Rightarrow> error + string \<Rightarrow> sendres \<Rightarrow> frame list
     \<Rightarrow> outcome \<times> event list \<times> frame list" where
  "start s enc sr fs =
     (case enc of
        Inl e \<Rightarrow> (Returns (Some (Errorf ''failed to marshal subscription'' e)), [], fs)
      | Inr encSubscription \<Rightarrow>
          (case send sr
                  \<lparr>Type = ''start'',
                   Payload = Some \<lparr>Data = appendString encSubscription,
                                   Extensions = Some \<lparr>Authorization = authExt s\<rparr>,
                                   Errors = []\<rparr>,
                   ID = reqID s\<rparr> of
             (Some e, evs) \<Rightarrow>
               (Returns (Some (Errorf ''failed to send connection_init'' e)), evs, fs)
           | (None, evs) \<Rightarrow>
               (case startLoop (reqID s) fs of (r, evs', fs') \<Rightarrow> (r, evs @ evs', fs'))))"

text \<open>
  The data handler is a closure: it is modelled with a state \<open>'h\<close> of its own, which
  each call may change.  It returns the continuation flag and the error.  Both callbacks
  are taken to return: one that panics or blocks for ever is not described.
\<close>

type_synonym 'h handler = "'h \<Rightarrow> context \<Rightarrow> Payload option \<Rightarrow> 'h \<times> bool \<times> error option"

text \<open>The loop of \<open>process\<close> (lines 276 to 313).\<close>

fun process :: "string \<Rightarrow> 'h handler \<Rightarrow> 'h \<Rightarrow> frame list \<Rightarrow> outcome \<times> event list \<times> 'h" where
  "process rid onData h [] =
     (Returns (Some (Errorf ''failed to read packet'' readSilent)), [], h)"
| "process rid onData h (f # fs) =
     (case read f of
        (Inl e, evs) \<Rightarrow> (Returns (Some (Errorf ''failed to read packet'' e)), evs, h)
      | (Inr None, evs) \<Rightarrow> (Panics, evs, h)
      | (Inr (Some pkt), evs) \<Rightarrow>
          if Type pkt = ''ka'' then
            (case process rid onData h fs of (r, evs', h') \<Rightarrow> (r, evs @ evs', h'))
          else if Type pkt = ''error'' then
            (case Payload pkt of
               None \<Rightarrow> (Panics, evs, h)
             | Some p \<Rightarrow>
                 (Returns (Some (ErrorfAfter ErrUnexpected ''websocket error'')),
                  evs @ websocketErrors p, h))
          else if Type pkt = ''data'' then
            (if ID pkt \<noteq> rid then
               (case process rid onData h fs of
                  (r, evs', h') \<Rightarrow>
                    (r, evs @ Slog Warn ''Received unexpected data packet''
                              [(''got'', Str (ID pkt)), (''expected'', Str rid)] # evs', h'))
             else
               (case Payload pkt of
                  None \<Rightarrow> (Panics, evs, h)
                | Some p \<Rightarrow>
                    (let evs1 = evs @ [Slog Debug ''Received data packet'' [(''data'', Str (Data p))],
                                        OnData Background (Payload pkt)]
                     in case onData h Background (Payload pkt) of
                          (h1, cont, Some e) \<Rightarrow>
                            (Returns (Some (Errorf ''failed to process data packet'' e)), evs1, h1)
                        | (h1, cont, None) \<Rightarrow>
                            if \<not> cont then
                              (Returns None,
                               evs1 @ [Slog Debug ''Data handler requested exit'' []], h1)
                            else
                              (case process rid onData h1 fs of
                                 (r, evs', h') \<Rightarrow> (r, evs1 @ evs', h')))))
          else
            (case process rid onData h fs of
               (r, evs', h') \<Rightarrow> (r, evs @ unexpectedPacket pkt # evs', h')))"

section \<open>The rendezvous operation\<close>

text \<open>
  Everything \<open>Subscribe\<close> obtains from outside: the result of \<open>url.Parse(endpoint)\<close>, of
  the dial, the identifier \<open>uuid.New()\<close> gives, the serialised subscription, what the
  connection does to the two writes and to the reads, and when the watcher goroutine
  runs if no read has met it.  \<open>doneBeforeReturn\<close>: the caller's context becomes done
  (cancelled, or past its deadline) when the main goroutine has made its last read, in the
  write or the callback that ends the run or after it, and the watcher goroutine calls
  \<open>ws.Close\<close> before \<open>Subscribe\<close> returns.  \<open>watcherRuns\<close>: the watcher goroutine still
  gets to run once \<open>Subscribe\<close> has returned.
\<close>

record world =
  parsed :: "error + URL"
  dialed :: "error option"
  uuid :: string
  marshalled :: "error + string"
  initSend :: sendres
  startSend :: sendres
  frames :: "frame list"
  doneBeforeReturn :: bool
  watcherRuns :: bool

text \<open>\<open>if err != nil { return fmt.Errorf(t + ": %w", err) }\<close>; a panic passes through.\<close>

fun failing :: "string \<Rightarrow> outcome \<Rightarrow> outcome" where
  "failing t (Returns (Some e)) = Returns (Some (Errorf t e))"
| "failing t r = r"

text \<open>Lines 155 to 181: the body of \<open>Subscribe\<close> once the connection is open.\<close>

definition session ::
  "world \<Rightarrow> wsSubscriber \<Rightarrow> (context \<Rightarrow> error option) \<Rightarrow> 'h handler \<Rightarrow> 'h
     \<Rightarrow> outcome \<times> event list \<times> 'h" where
  "session w s onReady onData h =
     (case initConnection (initSend w) (frames w) of
        (r1, ev1, fs1) \<Rightarrow>
          if r1 \<noteq> Returns None then (failing ''failed to init connection'' r1, ev1, h)
          else
            (case start s (marshalled w) (startSend w) fs1 of
               (r2, ev2, fs2) \<Rightarrow>
                 (let evA = ev1 @ Slog Debug ''Websocket initialized'' [] # ev2
                  in if r2 \<noteq> Returns None then
                       (failing ''failed to start subscription'' r2, evA, h)
                     else
                       (let evB = evA @ [Slog Debug ''Websocket subscription ready'' [],
                                         OnReady (WithCancel Caller)]
                        in case onReady (WithCancel Caller) of
                             Some e \<Rightarrow> (Returns (Some (Errorf ''onReady error'' e)), evB, h)
                           | None \<Rightarrow>
                               (case process (reqID s) onData h fs2 of
                                  (r3, ev3, h') \<Rightarrow>
                                    (failing ''failed to process subscription'' r3,
                                     evB @ ev3, h'))))))"

text \<open>
  \<open>Subscribe\<close> with its deferred calls.  \<open>cancel\<close> is deferred first and so runs last;
  \<open>ws.Close\<close> is deferred once the dial has succeeded.  The watcher goroutine (lines 148
  to 153) calls \<open>ws.Close\<close> once, when the context is done.  When the context becomes done
  from outside while the operation runs, the main goroutine meets the closed connection
  at its next read (the frames \<open>Cancelled\<close> and \<open>Interrupted\<close>); when it makes no further
  read, the watcher's close comes before the deferred calls (\<open>doneBeforeReturn\<close>).
  Otherwise it is the deferred \<open>cancel\<close> that makes the context done, and the watcher's
  close comes after it, if the goroutine still gets to run (\<open>watcherRuns\<close>).  The two
  goroutines run concurrently: the trace puts the watcher's close after the events of the
  main goroutine that it overlaps with (the call of a callback, a write, log lines).  The
  error branch of \<open>json.Marshal(authExt)\<close> (line 131) has no counterpart: serialising a
  map from strings to strings does not fail.
\<close>

definition Subscribe ::
  "world \<Rightarrow> string \<Rightarrow> string \<Rightarrow> (context \<Rightarrow> error option) \<Rightarrow> 'h handler \<Rightarrow> 'h
     \<Rightarrow> outcome \<times> event list \<times> 'h" where
  "Subscribe w endpoint accessToken onReady onData h =
     (case parsed w of
        Inl e \<Rightarrow>
          (Returns (Some (Errorf (''unable to parse endpoint '' @ endpoint) e)), [Cancel], h)
      | Inr u \<Rightarrow>
          (let ext = authExtOf (Hostname u) accessToken;
               addr = fst (GenerateWSAddr u);
               pre = [Slog Debug ''Connecting to websocket'' [(''endpoint'', Str addr)],
                      Dial addr [''graphql-ws'', subprotocol ext]]
           in case dialed w of
                Some e \<Rightarrow>
                  (Returns (Some (Errorf ''failed to dial websocket'' e)), pre @ [Cancel], h)
              | None \<Rightarrow>
                  (case session w \<lparr>authExt = ext, reqID = uuid w\<rparr> onReady onData h of
                     (r, evs, h') \<Rightarrow>
                       (let body = evs @ (if doneBeforeReturn w \<and> Close Watcher \<notin> set evs
                                          then [Close Watcher] else [])
                        in (r,
                            pre @ body @ [Close Deferred, Cancel]
                              @ (if watcherRuns w \<and> Close Watcher \<notin> set body
                                 then [Close Watcher] else []),
                            h')))))"

section \<open>Reading a trace\<close>

fun isOnReady :: "event \<Rightarrow> bool" where
  "isOnReady (OnReady c) = True"
| "isOnReady e = False"

fun isOnData :: "event \<Rightarrow> bool" where
  "isOnData (OnData c p) = True"
| "isOnData e = False"

fun isClose :: "event \<Rightarrow> bool" where
  "isClose (Close c) = True"
| "isClose e = False"

text \<open>
  The events of the connection and the log: writes, reads, log lines, and the watcher's
  close.
\<close>

fun wire :: "event \<Rightarrow> bool" where
  "wire (ReadJSON m) = True"
| "wire (WriteJSON m) = True"
| "wire (Slog l t as) = True"
| "wire (Close Watcher) = True"
| "wire e = False"

text \<open>The event of reading a \<open>start_ack\<close> that carries the identifier \<open>rid\<close>.\<close>

fun startAck :: "string \<Rightarrow> event \<Rightarrow> bool" where
  "startAck rid (ReadJSON (Some pkt)) = (Type pkt = ''start_ack'' \<and> ID pkt = rid)"
| "startAck rid e = False"

text \<open>The frame of a \<open>data\<close> message for \<open>rid\<close> with the payload pointer \<open>p\<close>.\<close>

fun dataFor :: "string \<Rightarrow> Payload option \<Rightarrow> frame \<Rightarrow> bool" where
  "dataFor rid p (Arrives (Some pkt)) = (Type pkt = ''data'' \<and> ID pkt = rid \<and> Payload pkt = p)"
| "dataFor rid p f = False"

text \<open>
  Replaying a trace on the handler: its state after the calls the trace records, in
  order.
\<close>

fun deliver :: "'h handler \<Rightarrow> 'h \<Rightarrow> event \<Rightarrow> 'h" where
  "deliver onData h (OnData c p) = fst (onData h c p)"
| "deliver onData h e = h"

definition replay :: "'h handler \<Rightarrow> 'h \<Rightarrow> event list \<Rightarrow> 'h" where
  "replay onData h evs = foldl (deliver onData) h evs"

text \<open>
  Reading a script.  \<open>arrives\<close>: the read returns what the peer sent.  \<open>cancels\<close>: the read
  meets the connection that the watcher goroutine has closed because the context became
  done.  \<open>silent\<close> is how a loop ends when the script is exhausted and the read runs into
  its deadline; a run of \<open>Subscribe\<close> is \<open>waiting\<close> when it ended that way, in one of the
  three loops: it has read the whole script and was blocked in the next read.
\<close>

fun arrives :: "frame \<Rightarrow> bool" where
  "arrives (Arrives m) = True"
| "arrives f = False"

fun cancels :: "frame \<Rightarrow> bool" where
  "cancels (Interrupted e) = True"
| "cancels (Cancelled e) = True"
| "cancels f = False"

definition silent :: outcome where
  "silent = Returns (Some (Errorf ''failed to read packet'' readSilent))"

definition waiting :: "outcome \<Rightarrow> bool" where
  "waiting r =
     (r = failing ''failed to init connection'' silent
      \<or> r = failing ''failed to start subscription'' silent
      \<or> r = failing ''failed to process subscription'' silent)"

section \<open>Scenarios\<close>

text \<open>
  A scripted connection for the scenarios of the specification: the endpoint
  \<open>https://svc.example.com\<close> as \<open>url.Parse\<close> returns it, a successful dial, one
  subscription identifier, and writes that succeed.
\<close>

definition exampleURL :: URL where
  "exampleURL =
     \<lparr>Scheme = ''https'', Opaque = [], User = None, Host = ''svc.example.com'', Path = [],
      RawPath = [], OmitHost = False, ForceQuery = False, RawQuery = [], Fragment = [],
      RawFragment = []\<rparr>"

definition subID :: string where
  "subID = ''0f8fad5b-d9cb-469f-a165-70867728950e''"

definition scripted :: "frame list \<Rightarrow> bool \<Rightarrow> world" where
  "scripted fs wr =
     \<lparr>parsed = Inr exampleURL, dialed = None, uuid = subID, marshalled = Inr ''{}'',
      initSend = Sent, startSend = Sent, frames = fs, doneBeforeReturn = False,
      watcherRuns = wr\<rparr>"

definition msg :: "string \<Rightarrow> string \<Rightarrow> Payload option \<Rightarrow> frame" where
  "msg t i p = Arrives (Some \<lparr>Type = t, Payload = p, ID = i\<rparr>)"

definition result :: Payload where
  "result = \<lparr>Data = ''42'', Extensions = None, Errors = []\<rparr>"

definition rejected :: Payload where
  "rejected = \<lparr>Data = [], Extensions = None,
               Errors = [Some \<lparr>ErrorType = ''UnauthorizedException''\<rparr>]\<rparr>"

text \<open>A handler that keeps what it is given and asks to stop, and one that goes on.\<close>

definition keepAndStop :: "Payload option list handler" where
  "keepAndStop h c p = (h @ [p], False, None)"

definition keepAndGoOn :: "Payload option list handler" where
  "keepAndGoOn h c p = (h @ [p], True, None)"

definition succeeds :: "context \<Rightarrow> error option" where
  "succeeds c = None"

definition refuses :: "context \<Rightarrow> error option" where
  "refuses c = Some (Lib ''failed to request'')"

definition happyScript :: "frame list" where
  "happyScript =
     [msg ''ka'' [] None, msg ''connection_ack'' [] None, msg ''ka'' [] None,
      msg ''start_ack'' subID None, msg ''data'' ''other'' (Some result),
      msg ''ka'' [] None, msg ''data'' subID (Some result)]"

text \<open>What every scenario's trace starts with, up to the \<open>start\<close> message.\<close>

definition dialling :: "event list" where
  "dialling =
     [Slog Debug ''Connecting to websocket''
        [(''endpoint'', Str (fst (GenerateWSAddr exampleURL)))],
      Dial (fst (GenerateWSAddr exampleURL))
        [''graphql-ws'', subprotocol (authExtOf (Hostname exampleURL) ''token'')],
      WriteJSON \<lparr>Type = ''connection_init'', Payload = None, ID = []\<rparr>]"

definition startMsg :: wsMessage where
  "startMsg =
     \<lparr>Type = ''start'',
      Payload = Some \<lparr>Data = appendString ''{}'',
                      Extensions =
                        Some \<lparr>Authorization = authExtOf (Hostname exampleURL) ''token''\<rparr>,
                      Errors = []\<rparr>,
      ID = subID\<rparr>"

definition acked :: "event list" where
  "acked =
     dialling
     @ [ReadJSON (Some \<lparr>Type = ''connection_ack'', Payload = None, ID = []\<rparr>),
        Slog Debug ''Websocket initialized'' [],
        WriteJSON startMsg,
        ReadJSON (Some \<lparr>Type = ''start_ack'', Payload = None, ID = subID\<rparr>),
        Slog Debug ''Websocket subscription ready'' [],
        OnReady (WithCancel Caller)]"

definition happyTrace :: "event list" where
  "happyTrace =
     dialling
     @ [ReadJSON (Some \<lparr>Type = ''ka'', Payload = None, ID = []\<rparr>),
        Slog Warn ''Received unexpected packet'' [(''type'', Str ''ka'')],
        ReadJSON (Some \<lparr>Type = ''connection_ack'', Payload = None, ID = []\<rparr>),
        Slog Debug ''Websocket initialized'' [],
        WriteJSON startMsg,
        ReadJSON (Some \<lparr>Type = ''ka'', Payload = None, ID = []\<rparr>),
        ReadJSON (Some \<lparr>Type = ''start_ack'', Payload = None, ID = subID\<rparr>),
        Slog Debug ''Websocket subscription ready'' [],
        OnReady (WithCancel Caller),
        ReadJSON (Some \<lparr>Type = ''data'', Payload = Some result, ID = ''other''\<rparr>),
        Slog Warn ''Received unexpected data packet''
          [(''got'', Str ''other''), (''expected'', Str subID)],
        ReadJSON (Some \<lparr>Type = ''ka'', Payload = None, ID = []\<rparr>),
        ReadJSON (Some \<lparr>Type = ''data'', Payload = Some result, ID = subID\<rparr>),
        Slog Debug ''Received data packet'' [(''data'', Str (Data result))],
        OnData Background (Some result),
        Slog Debug ''Data handler requested exit'' [],
        Close Deferred, Cancel, Close Watcher]"

text \<open>
  A handler that gives up as soon as the context it is handed is done, tried in a world
  where the caller's context is done and \<open>cancel\<close> has been called.
\<close>

definition cancelAware :: "Payload option list handler" where
  "cancelAware h c p =
     (if isDone c True True then (h, False, Some (Lib ''context canceled''))
      else keepAndStop h c p)"

definition cancelledScript :: "frame list" where
  "cancelledScript =
     [msg ''connection_ack'' [] None, msg ''start_ack'' subID None,
      Interrupted (Lib ''use of closed network connection'')]"

text \<open>
  One result is delivered.  In \<open>stoppedScript\<close> nothing follows: the handler ends the run,
  or goes on and waits.  In \<open>busyScript\<close> the context becomes done while the handler is at
  work, and the next read finds the connection closed.  \<open>delivered\<close> is the trace up to
  the call of the handler.
\<close>

definition stoppedScript :: "frame list" where
  "stoppedScript =
     [msg ''connection_ack'' [] None, msg ''start_ack'' subID None,
      msg ''data'' subID (Some result)]"

definition busyScript :: "frame list" where
  "busyScript = stoppedScript @ [Cancelled (Lib ''use of closed network connection'')]"

definition delivered :: "event list" where
  "delivered =
     acked
     @ [ReadJSON (Some \<lparr>Type = ''data'', Payload = Some result, ID = subID\<rparr>),
        Slog Debug ''Received data packet'' [(''data'', Str (Data result))],
        OnData Background (Some result)]"

definition dialFails :: world where
  "dialFails = (scripted [] True)\<lparr>dialed := Some (Lib ''bad handshake'')\<rparr>"

section \<open>Lemmas on the address derivation\<close>

lemma escape_id: "list_all (\<lambda>c. \<not> shouldEscape c mode) s \<Longrightarrow> escape s mode = s"
  by (induction s) auto

lemma hostChar_plain: "hostChar c \<Longrightarrow> \<not> shouldEscape c encodeHost"
  by (auto simp: hostChar_def shouldEscape_def)

lemma pathChar_plain: "pathChar c \<Longrightarrow> \<not> shouldEscape c encodePath"
  by (auto simp: pathChar_def shouldEscape_def)

lemma Replace1_split:
  "Contains s old \<Longrightarrow> \<exists>a b. s = a @ old @ b \<and> Replace1 s old new = a @ new @ b"
proof (induction s)
  case Nil
  then show ?case by simp
next
  case (Cons c cs)
  show ?case
  proof (cases "HasPrefix (c # cs) old")
    case True
    then have "c # cs = [] @ old @ drop (length old) (c # cs)"
      by (metis HasPrefix_def append_Nil append_take_drop_id)
    moreover have "Replace1 (c # cs) old new = [] @ new @ drop (length old) (c # cs)"
      using True by simp
    ultimately show ?thesis by blast
  next
    case False
    then have "Contains cs old" using Cons.prems by simp
    then obtain a b where "cs = a @ old @ b" "Replace1 cs old new = a @ new @ b"
      using Cons.IH by blast
    then have "c # cs = (c # a) @ old @ b \<and> Replace1 (c # cs) old new = (c # a) @ new @ b"
      using False by simp
    then show ?thesis by blast
  qed
qed

text \<open>How \<open>URL.String\<close> renders a URL that has a scheme, a host and a path only.\<close>

lemma String_plain:
  assumes "Scheme u \<noteq> []" "Opaque u = []" "User u = None" "Host u \<noteq> []"
    and "list_all hostChar (Host u)" "list_all pathChar (Path u)"
    and "Path u = [] \<or> hd (Path u) = CHR ''/''"
    and "RawPath u = []" "\<not> ForceQuery u" "RawQuery u = []" "Fragment u = []"
  shows "String u = Scheme u @ ''://'' @ Host u @ Path u"
proof -
  have h: "escape (Host u) encodeHost = Host u"
    using assms(5) by (intro escape_id) (auto simp: list_all_iff hostChar_plain)
  have "Path u \<noteq> ''*''" using assms(6) by (auto simp: pathChar_def alnum_def byte_def)
  moreover have "escape (Path u) encodePath = Path u"
    using assms(6) by (intro escape_id) (auto simp: list_all_iff pathChar_plain)
  ultimately have p: "EscapedPath u = Path u"
    using assms(8) by (simp add: EscapedPath_def)
  have a: "authority u = ''//'' @ Host u"
    using assms h by (simp add: authority_def)
  have "hierPart u (Scheme u @ '':'') = Scheme u @ '':'' @ ''//'' @ Host u @ Path u"
    using assms(1,7) p a by (auto simp: hierPart_def Let_def)
  then show ?thesis using assms by (simp add: String_def)
qed

lemma Parse_plain:
  assumes "Parse raw = Some u"
  shows "Scheme u \<noteq> []" "Opaque u = []" "User u = None" "Host u \<noteq> []"
    "list_all hostChar (Host u)" "list_all pathChar (Path u)"
    "Path u = [] \<or> hd (Path u) = CHR ''/''"
    "RawPath u = []" "\<not> ForceQuery u" "RawQuery u = []" "Fragment u = []"
  using assms hd_dropWhile[of "\<lambda>c. c \<noteq> CHR ''/''"]
  by (auto simp: Parse_def Let_def ToLower_def split: if_splits)

lemma managed_rewrite:
  assumes "managed host"
  shows "\<exists>a b. host = a @ ''.appsync-api.'' @ b
           \<and> Replace1 host ''.appsync-api.'' ''.appsync-realtime-api.''
               = a @ ''.appsync-realtime-api.'' @ b"
  using assms Replace1_split[of host "''.appsync-api.''" "''.appsync-realtime-api.''"]
  by (simp add: managed_def)

lemma GenerateWSAddr_fields:
  "snd (GenerateWSAddr u) =
     u\<lparr>Scheme := (if Scheme u = ''https'' then ''wss'' else ''ws''),
       Host := (if managed (Host u)
                then Replace1 (Host u) ''.appsync-api.'' ''.appsync-realtime-api.''
                else Host u),
       Path := (if managed (Host u) then Path u else Path u @ ''/realtime'')\<rparr>"
  "fst (GenerateWSAddr u) = String (snd (GenerateWSAddr u))"
  by (simp_all add: GenerateWSAddr_def managed_def Let_def)

lemma GenerateWSAddr_plain:
  assumes P: "Parse raw = Some u"
  shows "fst (GenerateWSAddr u) =
           Scheme (snd (GenerateWSAddr u)) @ ''://'' @ Host (snd (GenerateWSAddr u))
             @ Path (snd (GenerateWSAddr u))"
proof -
  let ?v = "snd (GenerateWSAddr u)"
  note u = Parse_plain[OF P]
  have host: "Host ?v \<noteq> [] \<and> list_all hostChar (Host ?v)"
  proof (cases "managed (Host u)")
    case True
    from managed_rewrite[OF True] obtain a b where
      "Host u = a @ ''.appsync-api.'' @ b"
      "Replace1 (Host u) ''.appsync-api.'' ''.appsync-realtime-api.'' = a @ ''.appsync-realtime-api.'' @ b"
      by blast
    then show ?thesis using u(5) True
      by (simp add: GenerateWSAddr_fields hostChar_def alnum_def byte_def)
  next
    case False
    then show ?thesis using u(4,5) by (simp add: GenerateWSAddr_fields)
  qed
  have path: "list_all pathChar (Path ?v) \<and> (Path ?v = [] \<or> hd (Path ?v) = CHR ''/'')"
    using u(6,7) by (auto simp: GenerateWSAddr_fields pathChar_def alnum_def byte_def hd_append)
  have "String ?v = Scheme ?v @ ''://'' @ Host ?v @ Path ?v"
    using host path u by (intro String_plain) (simp_all add: GenerateWSAddr_fields)
  then show ?thesis by (simp add: GenerateWSAddr_fields(2))
qed

lemma Parse_example:
  "Parse ''https://svc.example.com'' = Some exampleURL"
  by (simp add: Parse_def exampleURL_def HasPrefix_def isLetter_def schemeChar_def hostChar_def
      alnum_def byte_def ToLower_def)

lemma Parse_managed:
  "Parse ''https://x.appsync-api.us-east-1.amazonaws.com/graphql'' =
     Some (exampleURL\<lparr>Host := ''x.appsync-api.us-east-1.amazonaws.com'', Path := ''/graphql''\<rparr>)"
  by (simp add: Parse_def exampleURL_def HasPrefix_def isLetter_def schemeChar_def hostChar_def
      pathChar_def alnum_def byte_def ToLower_def)

section \<open>Lemmas on the read loops\<close>

lemma read_wire: "read f = (x, evs) \<Longrightarrow> list_all wire evs"
  by (cases f) auto

lemma initLoop_wire: "initLoop fs = (r, evs, fs') \<Longrightarrow> list_all wire evs"
proof (induction fs arbitrary: r evs fs')
  case Nil
  then show ?case by simp
next
  case (Cons f fs)
  then show ?case
    by (cases f) (auto simp: unexpectedPacket_def split: prod.splits option.splits if_splits)
qed

lemma startLoop_wire: "startLoop rid fs = (r, evs, fs') \<Longrightarrow> list_all wire evs"
proof (induction fs arbitrary: r evs fs')
  case Nil
  then show ?case by simp
next
  case (Cons f fs)
  then show ?case
    by (cases f) (auto simp: unexpectedPacket_def websocketErrors_def list_all_iff split: prod.splits option.splits if_splits)
qed

lemma initLoop_suffix: "initLoop fs = (r, evs, fs') \<Longrightarrow> set fs' \<subseteq> set fs"
proof (induction fs arbitrary: r evs fs')
  case Nil
  then show ?case by simp
next
  case (Cons f fs)
  then show ?case
    by (cases f) (auto split: prod.splits option.splits if_splits)
qed

lemma startLoop_suffix: "startLoop rid fs = (r, evs, fs') \<Longrightarrow> set fs' \<subseteq> set fs"
proof (induction fs arbitrary: r evs fs')
  case Nil
  then show ?case by simp
next
  case (Cons f fs)
  then show ?case
    by (cases f) (auto split: prod.splits option.splits if_splits)
qed

lemma startLoop_ack:
  "startLoop rid fs = (Returns None, evs, fs') \<Longrightarrow> \<exists>e \<in> set evs. startAck rid e"
proof (induction fs arbitrary: evs fs')
  case Nil
  then show ?case by simp
next
  case (Cons f fs)
  then show ?case
    by (cases f) (auto split: prod.splits option.splits if_splits)
qed

lemma process_events:
  "process rid onData h fs = (r, evs, h') \<Longrightarrow> e \<in> set evs \<Longrightarrow>
     wire e \<or> (\<exists>p. e = OnData Background p \<and> (\<exists>f \<in> set fs. dataFor rid p f))"
proof (induction fs arbitrary: h r evs h')
  case Nil
  then show ?case by simp
next
  case (Cons f fs)
  then show ?case
    by (cases f) (fastforce simp: Let_def unexpectedPacket_def websocketErrors_def split: prod.splits option.splits if_splits)+
qed

lemma process_cong:
  "(\<And>h p. f h Background p = g h Background p) \<Longrightarrow> process rid f h fs = process rid g h fs"
proof (induction fs arbitrary: h)
  case Nil
  then show ?case by simp
next
  case (Cons x fs)
  then show ?case
    by (cases x) (auto simp: Let_def split: prod.splits option.splits if_splits sum.splits)
qed

lemma process_closes:
  "process rid onData h fs = (r, evs, h') \<Longrightarrow>
     filter isClose evs = [] \<or> (filter isClose evs = [Close Watcher] \<and> (\<exists>e. r = Returns (Some e)))"
proof (induction fs arbitrary: h r evs h')
  case Nil
  then show ?case by simp
next
  case (Cons f fs)
  then show ?case
    by (cases f) (fastforce simp: Let_def unexpectedPacket_def websocketErrors_def filter_empty_conv split: prod.splits option.splits if_splits)+
qed

lemma startLoop_closes:
  "startLoop rid fs = (r, evs, fs') \<Longrightarrow>
     filter isClose evs = [] \<or> (filter isClose evs = [Close Watcher] \<and> (\<exists>e. r = Returns (Some e)))"
proof (induction fs arbitrary: r evs fs')
  case Nil
  then show ?case by simp
next
  case (Cons f fs)
  then show ?case
    by (cases f) (fastforce simp: Let_def unexpectedPacket_def websocketErrors_def filter_empty_conv split: prod.splits option.splits if_splits)+
qed

lemma initLoop_closes:
  "initLoop fs = (r, evs, fs') \<Longrightarrow>
     filter isClose evs = [] \<or> (filter isClose evs = [Close Watcher] \<and> (\<exists>e. r = Returns (Some e)))"
proof (induction fs arbitrary: r evs fs')
  case Nil
  then show ?case by simp
next
  case (Cons f fs)
  then show ?case
    by (cases f) (fastforce simp: Let_def unexpectedPacket_def filter_empty_conv split: prod.splits option.splits if_splits)+
qed

text \<open>
  A script that continues: a loop that has read all of \<open>pre\<close> and would wait goes on with
  what follows; a loop that ended within \<open>pre\<close> does not see it.
\<close>

lemma cancels_read: "cancels f \<Longrightarrow> \<exists>e. read f = (Inl e, [Close Watcher])"
  by (cases f) auto

lemma initLoop_more:
  "list_all arrives pre \<Longrightarrow>
   initLoop (pre @ rest) =
     (case initLoop pre of
        (r, evs, fs') \<Rightarrow>
          if r = silent then (case initLoop rest of (r', evs', fs'') \<Rightarrow> (r', evs @ evs', fs''))
          else (r, evs, fs' @ rest))"
proof (induction pre)
  case Nil
  then show ?case by (simp add: silent_def split: prod.splits)
next
  case (Cons f pre)
  then show ?case
    by (cases f) (auto simp: silent_def readSilent_def split: prod.splits option.splits)
qed

lemma startLoop_more:
  "list_all arrives pre \<Longrightarrow>
   startLoop rid (pre @ rest) =
     (case startLoop rid pre of
        (r, evs, fs') \<Rightarrow>
          if r = silent then (case startLoop rid rest of (r', evs', fs'') \<Rightarrow> (r', evs @ evs', fs''))
          else (r, evs, fs' @ rest))"
proof (induction pre)
  case Nil
  then show ?case by (simp add: silent_def split: prod.splits)
next
  case (Cons f pre)
  then show ?case
    by (cases f) (auto simp: silent_def readSilent_def split: prod.splits option.splits)
qed

lemma process_more:
  "list_all arrives pre \<Longrightarrow>
   process rid onData h (pre @ rest) =
     (case process rid onData h pre of
        (r, evs, h1) \<Rightarrow>
          if r = silent then
            (case process rid onData h1 rest of (r', evs', h2) \<Rightarrow> (r', evs @ evs', h2))
          else (r, evs, h1))"
proof (induction pre arbitrary: h)
  case Nil
  then show ?case by (simp add: silent_def split: prod.splits)
next
  case (Cons f pre)
  then show ?case
    by (cases f) (auto simp: silent_def readSilent_def Let_def split: prod.splits option.splits)
qed

lemma initConnection_wire: "initConnection sr fs = (r, evs, fs') \<Longrightarrow> list_all wire evs"
  by (cases sr) (auto simp: initConnection_def dest: initLoop_wire split: prod.splits)

lemma initConnection_suffix: "initConnection sr fs = (r, evs, fs') \<Longrightarrow> set fs' \<subseteq> set fs"
  by (cases sr) (auto simp: initConnection_def dest: initLoop_suffix split: prod.splits)

lemma initConnection_closes:
  "initConnection sr fs = (r, evs, fs') \<Longrightarrow>
     filter isClose evs = [] \<or> (filter isClose evs = [Close Watcher] \<and> (\<exists>e. r = Returns (Some e)))"
  by (cases sr) (auto simp: initConnection_def dest: initLoop_closes split: prod.splits)

lemma start_wire: "start s enc sr fs = (r, evs, fs') \<Longrightarrow> list_all wire evs"
  by (cases sr; cases enc) (auto simp: start_def dest: startLoop_wire split: prod.splits)

lemma start_suffix: "start s enc sr fs = (r, evs, fs') \<Longrightarrow> set fs' \<subseteq> set fs"
  by (cases sr; cases enc) (auto simp: start_def dest: startLoop_suffix split: prod.splits)

lemma start_closes:
  "start s enc sr fs = (r, evs, fs') \<Longrightarrow>
     filter isClose evs = [] \<or> (filter isClose evs = [Close Watcher] \<and> (\<exists>e. r = Returns (Some e)))"
  by (cases sr; cases enc) (auto simp: start_def dest: startLoop_closes split: prod.splits)

lemma start_ack:
  "start s enc sr fs = (Returns None, evs, fs') \<Longrightarrow> \<exists>e \<in> set evs. startAck (reqID s) e"
  by (cases sr; cases enc) (auto simp: start_def dest: startLoop_ack split: prod.splits)


lemma initConnection_more:
  "list_all arrives pre \<Longrightarrow>
   initConnection sr (pre @ rest) =
     (case initConnection sr pre of
        (r, evs, fs') \<Rightarrow>
          if r = silent then (case initLoop rest of (r', evs', fs'') \<Rightarrow> (r', evs @ evs', fs''))
          else (r, evs, fs' @ rest))"
  by (cases sr) (auto simp: initConnection_def initLoop_more silent_def split: prod.splits)

lemma start_more:
  "list_all arrives pre \<Longrightarrow>
   start s enc sr (pre @ rest) =
     (case start s enc sr pre of
        (r, evs, fs') \<Rightarrow>
          if r = silent then
            (case startLoop (reqID s) rest of (r', evs', fs'') \<Rightarrow> (r', evs @ evs', fs''))
          else (r, evs, fs' @ rest))"
  by (cases sr; cases enc) (auto simp: start_def startLoop_more silent_def split: prod.splits)

section \<open>Lemmas on the rendezvous operation\<close>

lemma failing_None: "failing t r = Returns None \<longleftrightarrow> r = Returns None"
  by (cases "(t, r)" rule: failing.cases) auto

lemma failing_Panics: "failing t r = Panics \<longleftrightarrow> r = Panics"
  by (cases "(t, r)" rule: failing.cases) auto

lemma all_wire_no_OnReady: "list_all wire evs \<Longrightarrow> filter isOnReady evs = []"
  by (induction evs) (auto elim: wire.elims)

lemma all_wire_no_OnData: "list_all wire evs \<Longrightarrow> filter isOnData evs = []"
  by (induction evs) (auto elim: wire.elims)

lemma process_no_OnReady: "process rid onData h fs = (r, evs, h') \<Longrightarrow> filter isOnReady evs = []"
  using process_events[of rid onData h fs r evs h']
  by (fastforce simp: filter_empty_conv elim: wire.elims)

text \<open>The shape of a trace of \<open>session\<close> around the trigger.\<close>

lemma session_shape:
  assumes "session w s onReady onData h = (r, evs, h')"
  shows "(list_all wire evs \<and> h' = h \<and> r \<noteq> Returns None)
       \<or> (\<exists>pre post. evs = pre @ OnReady (WithCancel Caller) # post
             \<and> list_all wire pre \<and> (\<exists>e \<in> set pre. startAck (reqID s) e)
             \<and> (case onReady (WithCancel Caller) of
                   Some e \<Rightarrow> post = [] \<and> r = Returns (Some (Errorf ''onReady error'' e)) \<and> h' = h
                 | None \<Rightarrow> (\<exists>fs r3. set fs \<subseteq> set (frames w)
                              \<and> process (reqID s) onData h fs = (r3, post, h')
                              \<and> r = failing ''failed to process subscription'' r3)))"
proof -
  obtain r1 ev1 fs1 where i: "initConnection (initSend w) (frames w) = (r1, ev1, fs1)"
    by (cases "initConnection (initSend w) (frames w)") auto
  obtain r2 ev2 fs2 where st: "start s (marshalled w) (startSend w) fs1 = (r2, ev2, fs2)"
    by (cases "start s (marshalled w) (startSend w) fs1") auto
  obtain r3 ev3 h3 where p: "process (reqID s) onData h fs2 = (r3, ev3, h3)"
    by (cases "process (reqID s) onData h fs2") auto
  have w1: "list_all wire ev1" using i by (rule initConnection_wire)
  have w2: "list_all wire ev2" using st by (rule start_wire)
  have sub: "set fs2 \<subseteq> set (frames w)"
    using initConnection_suffix[OF i] start_suffix[OF st] by blast
  show ?thesis
  proof (cases "r1 = Returns None")
    case False
    then show ?thesis using assms i w1 by (auto simp: session_def failing_None)
  next
    case r1: True
    show ?thesis
    proof (cases "r2 = Returns None")
      case False
      then show ?thesis using assms i st r1 w1 w2 by (auto simp: session_def Let_def failing_None)
    next
      case r2: True
      let ?pre = "ev1 @ Slog Debug ''Websocket initialized'' [] # ev2 @ [Slog Debug ''Websocket subscription ready'' []]"
      have ack: "\<exists>e \<in> set ?pre. startAck (reqID s) e"
        using start_ack[of s "marshalled w" "startSend w" fs1 ev2 fs2] st r2 by auto
      have wp: "list_all wire ?pre" using w1 w2 by simp
      show ?thesis
      proof (cases "onReady (WithCancel Caller)")
        case None
        then have "evs = ?pre @ OnReady (WithCancel Caller) # ev3 \<and> h' = h3 \<and> r = failing ''failed to process subscription'' r3"
          using assms i st p r1 r2 by (auto simp: session_def Let_def)
        then show ?thesis using None ack wp p sub by (intro disjI2 exI[of _ ?pre] exI[of _ ev3]) auto
      next
        case (Some e)
        then have "evs = ?pre @ OnReady (WithCancel Caller) # [] \<and> h' = h \<and> r = Returns (Some (Errorf ''onReady error'' e))"
          using assms i st r1 r2 by (auto simp: session_def Let_def)
        then show ?thesis using Some ack wp by (intro disjI2 exI[of _ ?pre] exI[of _ "[]"]) auto
      qed
    qed
  qed
qed


lemma ready_index:
  assumes evs: "evs = pre @ x # post"
    and pre: "filter isOnReady pre = []"
    and post: "filter isOnReady post = []"
    and ex: "\<exists>e \<in> set pre. P e"
  shows "\<forall>i < length evs. isOnReady (evs ! i) \<longrightarrow> (\<exists>j < i. P (evs ! j))"
proof (intro allI impI)
  fix i
  assume i: "i < length evs" and r: "isOnReady (evs ! i)"
  have "\<not> i < length pre"
  proof
    assume "i < length pre"
    then have "evs ! i \<in> set pre" using evs by (simp add: nth_append)
    then show False using pre r by (auto simp: filter_empty_conv)
  qed
  moreover have "\<not> length pre < i"
  proof
    assume l: "length pre < i"
    then have "evs ! i = post ! (i - length pre - 1)" using evs by (simp add: nth_append)
    moreover have "i - length pre - 1 < length post" using l i evs by simp
    ultimately have "evs ! i \<in> set post" by (metis nth_mem)
    then show False using post r by (auto simp: filter_empty_conv)
  qed
  ultimately have eq: "i = length pre" by simp
  from ex obtain e where "e \<in> set pre" "P e" by blast
  then obtain j where j: "j < length pre" "pre ! j = e" by (auto simp: in_set_conv_nth)
  then have "evs ! j = e" using evs by (simp add: nth_append)
  then show "\<exists>j < i. P (evs ! j)" using j eq \<open>P e\<close> by blast
qed

lemma session_closes:
  assumes "session w s onReady onData h = (r, evs, h')"
  shows "filter isClose evs = [] \<or> filter isClose evs = [Close Watcher]"
proof -
  obtain r1 ev1 fs1 where i: "initConnection (initSend w) (frames w) = (r1, ev1, fs1)"
    by (cases "initConnection (initSend w) (frames w)") auto
  obtain r2 ev2 fs2 where st: "start s (marshalled w) (startSend w) fs1 = (r2, ev2, fs2)"
    by (cases "start s (marshalled w) (startSend w) fs1") auto
  obtain r3 ev3 h3 where p: "process (reqID s) onData h fs2 = (r3, ev3, h3)"
    by (cases "process (reqID s) onData h fs2") auto
  note c1 = initConnection_closes[OF i]
  note c2 = start_closes[OF st]
  note c3 = process_closes[OF p]
  show ?thesis
  proof (cases "r1 = Returns None")
    case False
    then show ?thesis using assms i c1 by (auto simp: session_def)
  next
    case r1: True
    then have e1: "filter isClose ev1 = []" using c1 by auto
    show ?thesis
    proof (cases "r2 = Returns None")
      case False
      then show ?thesis using assms i st r1 e1 c2 by (auto simp: session_def Let_def)
    next
      case r2: True
      then have e2: "filter isClose ev2 = []" using c2 by auto
      show ?thesis using assms i st p r1 r2 e1 e2 c3
        by (auto simp: session_def Let_def split: option.splits)
    qed
  qed
qed

text \<open>The trace of \<open>Subscribe\<close> once the URL is parsed and the dial has succeeded.\<close>

lemma Subscribe_dialed:
  assumes "parsed w = Inr u" "dialed w = None"
  shows "Subscribe w endpoint accessToken onReady onData h =
     (case session w \<lparr>authExt = authExtOf (Hostname u) accessToken, reqID = uuid w\<rparr> onReady onData h of
        (r, evs, h') \<Rightarrow>
          (r, [Slog Debug ''Connecting to websocket'' [(''endpoint'', Str (fst (GenerateWSAddr u)))],
               Dial (fst (GenerateWSAddr u)) [''graphql-ws'', subprotocol (authExtOf (Hostname u) accessToken)]]
              @ evs
              @ (if doneBeforeReturn w \<and> Close Watcher \<notin> set evs then [Close Watcher] else [])
              @ [Close Deferred, Cancel]
              @ (if watcherRuns w \<and> \<not> doneBeforeReturn w \<and> Close Watcher \<notin> set evs
                 then [Close Watcher] else []), h'))"
  using assms by (auto simp: Subscribe_def Let_def split: prod.splits)


lemma replay_wire: "list_all wire evs \<Longrightarrow> replay onData h evs = h"
  unfolding replay_def by (induction evs arbitrary: h) (auto elim: wire.elims)

lemma replay_append: "replay onData h (xs @ ys) = replay onData (replay onData h xs) ys"
  by (simp add: replay_def)

lemma replay_Cons: "replay onData h (x # xs) = replay onData (deliver onData h x) xs"
  by (simp add: replay_def)

lemma replay_Nil: "replay onData h [] = h"
  by (simp add: replay_def)

lemma process_replay: "process rid onData h fs = (r, evs, h') \<Longrightarrow> h' = replay onData h evs"
proof (induction fs arbitrary: h r evs h')
  case Nil
  then show ?case by (simp add: replay_def)
next
  case (Cons f fs)
  then show ?case
    by (cases f)
      (fastforce simp: Let_def unexpectedPacket_def websocketErrors_def replay_Cons replay_Nil
          replay_append replay_wire list_all_iff
        split: prod.splits option.splits if_splits)+
qed

lemma session_cases:
  assumes ses: "session w s onReady onData h = (r, evs, h')"
  obtains
    (quiet) "list_all wire evs" "h' = h" "r \<noteq> Returns None"
  | (refused) pre e where "evs = pre @ [OnReady (WithCancel Caller)]" "list_all wire pre"
      "\<exists>a \<in> set pre. startAck (reqID s) a" "onReady (WithCancel Caller) = Some e"
      "r = Returns (Some (Errorf ''onReady error'' e))" "h' = h"
  | (processed) pre post fs r3 where "evs = pre @ OnReady (WithCancel Caller) # post"
      "list_all wire pre" "\<exists>a \<in> set pre. startAck (reqID s) a"
      "onReady (WithCancel Caller) = None" "set fs \<subseteq> set (frames w)"
      "process (reqID s) onData h fs = (r3, post, h')"
      "r = failing ''failed to process subscription'' r3"
  using session_shape[OF ses]
proof
  assume "list_all wire evs \<and> h' = h \<and> r \<noteq> Returns None"
  then show ?thesis using quiet by blast
next
  assume "\<exists>pre post. evs = pre @ OnReady (WithCancel Caller) # post
             \<and> list_all wire pre \<and> (\<exists>e \<in> set pre. startAck (reqID s) e)
             \<and> (case onReady (WithCancel Caller) of
                   Some e \<Rightarrow> post = [] \<and> r = Returns (Some (Errorf ''onReady error'' e)) \<and> h' = h
                 | None \<Rightarrow> (\<exists>fs r3. set fs \<subseteq> set (frames w)
                              \<and> process (reqID s) onData h fs = (r3, post, h')
                              \<and> r = failing ''failed to process subscription'' r3))"
  then obtain pre post where evs: "evs = pre @ OnReady (WithCancel Caller) # post"
    and wpre: "list_all wire pre" and ack: "\<exists>a \<in> set pre. startAck (reqID s) a"
    and rest: "case onReady (WithCancel Caller) of
                   Some e \<Rightarrow> post = [] \<and> r = Returns (Some (Errorf ''onReady error'' e)) \<and> h' = h
                 | None \<Rightarrow> (\<exists>fs r3. set fs \<subseteq> set (frames w)
                              \<and> process (reqID s) onData h fs = (r3, post, h')
                              \<and> r = failing ''failed to process subscription'' r3)"
    by blast
  show ?thesis
  proof (cases "onReady (WithCancel Caller)")
    case None
    then obtain fs r3 where "set fs \<subseteq> set (frames w)"
      "process (reqID s) onData h fs = (r3, post, h')"
      "r = failing ''failed to process subscription'' r3"
      using rest by auto
    then show ?thesis using processed[OF evs wpre ack None] by blast
  next
    case (Some e)
    then have "post = []" "r = Returns (Some (Errorf ''onReady error'' e))" "h' = h"
      using rest by auto
    then show ?thesis using refused[OF _ wpre ack Some] evs by simp
  qed
qed

lemma session_events:
  assumes ses: "session w s onReady onData h = (r, evs, h')" and e: "e \<in> set evs"
  shows "wire e \<or> e = OnReady (WithCancel Caller)
       \<or> (\<exists>p. e = OnData Background p \<and> (\<exists>f \<in> set (frames w). dataFor (reqID s) p f))"
  using ses
proof (cases rule: session_cases)
  case quiet
  then show ?thesis using e by (auto simp: list_all_iff)
next
  case (refused pre x)
  then show ?thesis using e by (auto simp: list_all_iff)
next
  case (processed pre post fs r3)
  from e processed(1) consider "e \<in> set pre" | "e = OnReady (WithCancel Caller)" | "e \<in> set post"
    by auto
  then show ?thesis
  proof cases
    case 1
    then show ?thesis using processed(2) by (auto simp: list_all_iff)
  next
    case 2
    then show ?thesis by simp
  next
    case 3
    from process_events[OF processed(6) 3] processed(5) show ?thesis by blast
  qed
qed

lemma session_replay:
  assumes ses: "session w s onReady onData h = (r, evs, h')"
  shows "h' = replay onData h evs"
  using ses
proof (cases rule: session_cases)
  case quiet
  then show ?thesis by (simp add: replay_wire)
next
  case (refused pre x)
  then show ?thesis by (simp add: replay_append replay_Cons replay_Nil replay_wire)
next
  case (processed pre post fs r3)
  then show ?thesis
    using process_replay[OF processed(6)]
    by (simp add: replay_append replay_Cons replay_wire)
qed

text \<open>What \<open>Subscribe\<close> adds around the trace of \<open>session\<close>, or instead of it.\<close>

lemma Subscribe_events:
  assumes S: "Subscribe w endpoint accessToken onReady onData h = (r, evs, h')"
  shows "\<exists>pre es post. evs = pre @ es @ post
           \<and> filter isOnData pre = [] \<and> filter isOnData post = []
           \<and> (es = [] \<and> h' = h
               \<or> (\<exists>s. reqID s = uuid w \<and> session w s onReady onData h = (r, es, h')))"
proof (cases "parsed w")
  case (Inl e)
  then have "evs = [Cancel] @ [] @ [] \<and> h' = h" using S by (simp add: Subscribe_def)
  then show ?thesis by (intro exI[of _ "[Cancel]"] exI[of _ "[]"]) simp
next
  case (Inr u)
  let ?P = "[Slog Debug ''Connecting to websocket'' [(''endpoint'', Str (fst (GenerateWSAddr u)))],
               Dial (fst (GenerateWSAddr u)) [''graphql-ws'', subprotocol (authExtOf (Hostname u) accessToken)]]"
  show ?thesis
  proof (cases "dialed w")
    case (Some e)
    then have "evs = ?P @ [] @ [Cancel] \<and> h' = h"
      using S Inr by (simp add: Subscribe_def Let_def)
    then show ?thesis by (intro exI[of _ ?P] exI[of _ "[]"] exI[of _ "[Cancel]"]) simp
  next
    case None
    let ?s = "\<lparr>authExt = authExtOf (Hostname u) accessToken, reqID = uuid w\<rparr>"
    obtain rs es hs where ses: "session w ?s onReady onData h = (rs, es, hs)"
      by (cases "session w ?s onReady onData h") auto
    let ?T = "(if doneBeforeReturn w \<and> Close Watcher \<notin> set es then [Close Watcher] else [])
              @ [Close Deferred, Cancel]
              @ (if watcherRuns w \<and> \<not> doneBeforeReturn w \<and> Close Watcher \<notin> set es
                 then [Close Watcher] else [])"
    have "evs = ?P @ es @ ?T" "r = rs" "h' = hs"
      using S ses Subscribe_dialed[OF Inr None, of endpoint accessToken onReady onData h] by auto
    then show ?thesis using ses
      by (intro exI[of _ ?P] exI[of _ es] exI[of _ ?T]) auto
  qed
qed


lemma initLoop_tolerates:
  "list_all (\<lambda>m. Type m \<noteq> ''connection_ack'' \<and> Type m \<noteq> ''connection_error'') others \<Longrightarrow>
   initLoop (map (\<lambda>m. Arrives (Some m)) others @ fs) =
     (case initLoop fs of
        (r, evs, fs') \<Rightarrow>
          (r, concat (map (\<lambda>m. [ReadJSON (Some m), unexpectedPacket m]) others) @ evs, fs'))"
  by (induction others) (auto split: prod.splits)

text \<open>
  An \<open>error\<close> message that has a payload ends \<open>start\<close> and \<open>process\<close> with the wrapped
  \<open>ErrUnexpected\<close>, after one warning per server-reported error.
\<close>

lemma error_with_payload_is_fatal:
  assumes "Type pkt = ''error''" "Payload pkt = Some p"
  shows "startLoop rid (Arrives (Some pkt) # fs) =
           (Returns (Some (ErrorfAfter ErrUnexpected ''websocket error'')),
            ReadJSON (Some pkt) # websocketErrors p, fs)"
    and "process rid onData h (Arrives (Some pkt) # fs) =
           (Returns (Some (ErrorfAfter ErrUnexpected ''websocket error'')),
            ReadJSON (Some pkt) # websocketErrors p, h)"
  using assms by simp_all

text \<open>
  A \<open>data\<close> message for this subscription that has a payload: one call of the handler
  with that payload and the background context; its error ends the loop, its flag
  \<open>False\<close> ends it with success, its flag \<open>True\<close> lets the loop read on with the
  handler's new state.
\<close>

lemma data_with_payload_is_delivered:
  assumes "Type pkt = ''data''" "ID pkt = rid" "Payload pkt = Some p"
  shows "process rid onData h (Arrives (Some pkt) # fs) =
           (case onData h Background (Some p) of
              (h1, cont, Some e) \<Rightarrow>
                (Returns (Some (Errorf ''failed to process data packet'' e)),
                 [ReadJSON (Some pkt), Slog Debug ''Received data packet'' [(''data'', Str (Data p))],
                  OnData Background (Some p)], h1)
            | (h1, cont, None) \<Rightarrow>
                if cont then
                  (case process rid onData h1 fs of
                     (r, evs, h') \<Rightarrow>
                       (r, [ReadJSON (Some pkt),
                            Slog Debug ''Received data packet'' [(''data'', Str (Data p))],
                            OnData Background (Some p)] @ evs, h'))
                else
                  (Returns None,
                   [ReadJSON (Some pkt), Slog Debug ''Received data packet'' [(''data'', Str (Data p))],
                    OnData Background (Some p), Slog Debug ''Data handler requested exit'' []], h1))"
  using assms by (auto simp: Let_def split: prod.splits option.splits)

text \<open>
  A run that has read all of \<open>pre\<close> and waits, when the next read meets the closed
  connection: the same trace, then the watcher's close, and an error.
\<close>

lemma waiting_failing: "waiting (failing t r) \<Longrightarrow> r = silent"
  by (cases "(t, r)" rule: failing.cases) (auto simp: waiting_def silent_def)

lemma session_cancelled:
  assumes a: "list_all arrives pre" and c: "cancels f"
    and s0: "session (w\<lparr>frames := pre\<rparr>) s onReady onData h = (r0, es0, h0)"
    and wt: "waiting r0"
  shows "\<exists>e. session (w\<lparr>frames := pre @ f # rest\<rparr>) s onReady onData h =
               (Returns (Some e), es0 @ [Close Watcher], h0)"
proof -
  from c obtain e where rd: "read f = (Inl e, [Close Watcher])"
    by (auto dest: cancels_read)
  let ?E = "Returns (Some (Errorf ''failed to read packet'' e))"
  have li: "initLoop (f # rest) = (?E, [Close Watcher], rest)"
    using rd by simp
  have ls: "startLoop (reqID s) (f # rest) = (?E, [Close Watcher], rest)"
    using rd by simp
  have lp: "process (reqID s) onData g (f # rest) = (?E, [Close Watcher], g)" for g
    using rd by simp
  obtain r1 ev1 fs1 where i0: "initConnection (initSend w) pre = (r1, ev1, fs1)"
    by (cases "initConnection (initSend w) pre") auto
  have i1: "initConnection (initSend w) (pre @ f # rest) =
              (if r1 = silent then (?E, ev1 @ [Close Watcher], rest)
               else (r1, ev1, fs1 @ f # rest))"
    using i0 li by (simp add: initConnection_more[OF a])
  show ?thesis
  proof (cases "r1 = Returns None")
    case False
    then have "r0 = failing ''failed to init connection'' r1" "es0 = ev1" "h0 = h"
      using s0 i0 by (simp_all add: session_def)
    moreover from this wt have "r1 = silent" by (auto dest: waiting_failing)
    ultimately show ?thesis using i1 by (simp add: session_def silent_def)
  next
    case r1: True
    then have n1: "r1 \<noteq> silent" by (simp add: silent_def)
    have a1: "list_all arrives fs1"
      using initConnection_suffix[OF i0] a by (auto simp: list_all_iff)
    obtain r2 ev2 fs2 where t0: "start s (marshalled w) (startSend w) fs1 = (r2, ev2, fs2)"
      by (cases "start s (marshalled w) (startSend w) fs1") auto
    have t1: "start s (marshalled w) (startSend w) (fs1 @ f # rest) =
                (if r2 = silent then (?E, ev2 @ [Close Watcher], rest)
                 else (r2, ev2, fs2 @ f # rest))"
      using t0 ls by (simp add: start_more[OF a1])
    let ?A = "ev1 @ Slog Debug ''Websocket initialized'' [] # ev2"
    show ?thesis
    proof (cases "r2 = Returns None")
      case False
      then have "r0 = failing ''failed to start subscription'' r2" "es0 = ?A" "h0 = h"
        using s0 i0 t0 r1 by (simp_all add: session_def Let_def)
      moreover from this wt have "r2 = silent" by (auto dest: waiting_failing)
      ultimately show ?thesis using i1 t1 r1 n1 by (simp add: session_def Let_def silent_def)
    next
      case r2: True
      then have n2: "r2 \<noteq> silent" by (simp add: silent_def)
      have a2: "list_all arrives fs2"
        using start_suffix[OF t0] a1 by (auto simp: list_all_iff)
      let ?B = "?A @ [Slog Debug ''Websocket subscription ready'' [], OnReady (WithCancel Caller)]"
      show ?thesis
      proof (cases "onReady (WithCancel Caller)")
        case (Some x)
        then have "r0 = Returns (Some (Errorf ''onReady error'' x))"
          using s0 i0 t0 r1 r2 by (simp add: session_def Let_def)
        then have False using wt by (simp add: waiting_def silent_def)
        then show ?thesis ..
      next
        case None
        obtain r3 ev3 h3 where p0: "process (reqID s) onData h fs2 = (r3, ev3, h3)"
          by (cases "process (reqID s) onData h fs2") auto
        have p1: "process (reqID s) onData h (fs2 @ f # rest) =
                    (if r3 = silent then (?E, ev3 @ [Close Watcher], h3) else (r3, ev3, h3))"
          using p0 lp by (simp add: process_more[OF a2])
        have "r0 = failing ''failed to process subscription'' r3" "es0 = ?B @ ev3" "h0 = h3"
          using s0 i0 t0 r1 r2 None p0 by (simp_all add: session_def Let_def)
        moreover from this wt have "r3 = silent" by (auto dest: waiting_failing)
        ultimately show ?thesis
          using i1 t1 p1 r1 n1 r2 n2 None by (simp add: session_def Let_def silent_def)
      qed
    qed
  qed
qed

lemma Subscribe_result:
  assumes "parsed w = Inr u" "dialed w = None"
  shows "fst (Subscribe w endpoint accessToken onReady onData h) =
           fst (session w \<lparr>authExt = authExtOf (Hostname u) accessToken, reqID = uuid w\<rparr>
                  onReady onData h)"
  using assms by (simp add: Subscribe_dialed split: prod.splits)

section \<open>Lemmas on base64\<close>

lemma byte_less: "byte c < 256"
  by (simp add: byte_def)

lemma char_of_byte: "char_of (byte c) = c"
  by (simp add: byte_def)

lemma letters:
  "list_all (\<lambda>n. decodeMap (encodeURL ! n) = Some n \<and> encodeURL ! n \<noteq> CHR ''='') [0..<64]"
  by code_simp

lemma letter: "n < 64 \<Longrightarrow> decodeMap (encodeURL ! n) = Some n \<and> encodeURL ! n \<noteq> CHR ''=''"
  using letters by (simp add: list_all_iff)

lemma ReplaceAll_pad: "ReplaceAll s ''='' [] = filter (\<lambda>c. c \<noteq> CHR ''='') s"
  by (induction s) (auto simp: HasPrefix_def)

text \<open>Four base-64 digits of a number put together again.\<close>

lemma resextet:
  fixes v :: nat
  shows "v div 262144 * 262144 + v div 4096 mod 64 * 4096 + v div 64 mod 64 * 64 + v mod 64 = v"
proof -
  define q1 where "q1 = v div 64"
  define q2 where "q2 = q1 div 64"
  define q3 where "q3 = q2 div 64"
  define r0 where "r0 = v mod 64"
  define r1 where "r1 = q1 mod 64"
  define r2 where "r2 = q2 mod 64"
  have "v div (64 * 64) = v div 64 div 64" by (rule div_mult2_eq)
  then have d2: "v div 4096 = q2" by (simp add: q1_def q2_def)
  have "v div (4096 * 64) = v div 4096 div 64" by (rule div_mult2_eq)
  then have d3: "v div 262144 = q3" by (simp add: d2 q3_def)
  have e0: "v = q1 * 64 + r0" by (simp add: q1_def r0_def)
  have e1: "q1 = q2 * 64 + r1" by (simp add: q2_def r1_def)
  have e2: "q2 = q3 * 64 + r2" by (simp add: q3_def r2_def)
  have "q3 * 262144 + r2 * 4096 + r1 * 64 + r0 = v"
    using e0 e1 e2 by linarith
  then show ?thesis
    unfolding d3 d2 by (simp add: q1_def r0_def r1_def r2_def)
qed

lemma bytes3:
  fixes a b c :: nat
  assumes "a < 256" "b < 256" "c < 256"
  shows "(a * 65536 + b * 256 + c) div 65536 = a"
    and "(a * 65536 + b * 256 + c) div 256 mod 256 = b"
    and "(a * 65536 + b * 256 + c) mod 256 = c"
proof -
  let ?v = "a * 65536 + b * 256 + c"
  have v: "?v = c + 256 * (b + 256 * a)" by simp
  have lo: "?v mod 256 = c" unfolding v using assms(3) by (simp only: mod_mult_self2 mod_less)
  have hi: "?v div 256 = b + 256 * a" unfolding v using assms(3) by simp
  have "(b + 256 * a) mod 256 = b" using assms(2) by (simp only: mod_mult_self2 mod_less)
  then show "?v div 256 mod 256 = b" by (simp only: hi)
  have "?v div (256 * 256) = ?v div 256 div 256" by (rule div_mult2_eq)
  then have "?v div 65536 = (b + 256 * a) div 256" by (simp only: hi) simp
  then show "?v div 65536 = a" using assms(2) by simp
  show "?v mod 256 = c" by (rule lo)
qed

lemma sextets:
  fixes v :: nat
  assumes "v < 16777216"
  shows "v div 262144 < 64" "v div 4096 mod 64 < 64" "v div 64 mod 64 < 64" "v mod 64 < 64"
  using assms by simp_all


lemma strip_padding: "filter (\<lambda>c. c \<noteq> CHR ''='') (EncodeToString bs) = RawEncode bs"
proof (induction bs rule: EncodeToString.induct)
  case 1
  then show ?case by simp
next
  case (2 a)
  have "byte a * 65536 < 16777216" using byte_less[of a] by simp
  from sextets[OF this] show ?case by (simp add: Let_def letter)
next
  case (3 a b)
  have "byte a * 65536 + byte b * 256 < 16777216" using byte_less[of a] byte_less[of b] by simp
  from sextets[OF this] show ?case by (simp add: Let_def letter)
next
  case (4 a b c rest)
  have "byte a * 65536 + byte b * 256 + byte c < 16777216"
    using byte_less[of a] byte_less[of b] byte_less[of c] by simp
  from sextets[OF this] 4 show ?case by (simp add: Let_def letter)
qed

lemma decode_one:
  fixes a :: nat
  shows "((a * 65536) div 262144 * 64 + (a * 65536) div 4096 mod 64) div 16 = a"
proof -
  have q: "(a * 65536) div 4096 = a * 16" by simp
  have "(a * 65536) div (4096 * 64) = (a * 65536) div 4096 div 64" by (rule div_mult2_eq)
  then have "(a * 65536) div 262144 = a * 16 div 64" by (simp only: q)
  then have "(a * 65536) div 262144 * 64 + (a * 65536) div 4096 mod 64
               = a * 16 div 64 * 64 + a * 16 mod 64"
    by (simp only: q)
  also have "\<dots> = a * 16" by (rule div_mult_mod_eq)
  finally show ?thesis by simp
qed

lemma decode_two:
  fixes a b :: nat
  assumes "b < 256"
  defines "v \<equiv> a * 65536 + b * 256"
  shows "(v div 262144 * 4096 + v div 4096 mod 64 * 64 + v div 64 mod 64) div 1024 = a"
    and "(v div 262144 * 4096 + v div 4096 mod 64 * 64 + v div 64 mod 64) div 4 mod 256 = b"
proof -
  define u where "u = a * 1024 + b * 4"
  define w where "w = v div 262144 * 4096 + v div 4096 mod 64 * 64 + v div 64 mod 64"
  have vu: "v = u * 64" by (simp add: v_def u_def)
  have m: "v mod 64 = 0" by (simp add: vu)
  have "w * 64 + v mod 64 = v"
    using resextet[of v] by (simp add: w_def)
  then have "w * 64 = u * 64" by (simp only: m vu) simp
  then have e: "w = u" by simp
  have u4: "u = 4 * (b + 256 * a)" by (simp add: u_def)
  have q: "u div 4 = b + 256 * a" unfolding u4 by simp
  have "(b + 256 * a) mod 256 = b" using assms(1) by (simp only: mod_mult_self2 mod_less)
  then have "w div 4 mod 256 = b" by (simp only: e q)
  then show "(v div 262144 * 4096 + v div 4096 mod 64 * 64 + v div 64 mod 64) div 4 mod 256 = b"
    by (simp only: w_def)
  have "u div (4 * 256) = u div 4 div 256" by (rule div_mult2_eq)
  then have "u div (4 * 256) = (b + 256 * a) div 256" by (simp only: q)
  then have "u div 1024 = a" using assms(1) by simp
  then have "w div 1024 = a" by (simp only: e)
  then show "(v div 262144 * 4096 + v div 4096 mod 64 * 64 + v div 64 mod 64) div 1024 = a"
    by (simp only: w_def)
qed

lemma DecodeString_RawEncode: "DecodeString (RawEncode bs) = Some bs"
proof (induction bs rule: RawEncode.induct)
  case 1
  then show ?case by simp
next
  case (2 a)
  define v where "v = byte a * 65536"
  define x where "x = v div 262144"
  define y where "y = v div 4096 mod 64"
  have "v < 16777216" using byte_less[of a] by (simp add: v_def)
  from sextets[OF this] have l: "x < 64" "y < 64" by (simp_all add: x_def y_def)
  have enc: "RawEncode [a] = [encodeURL ! x, encodeURL ! y]"
    by (simp add: Let_def x_def y_def v_def)
  have "DecodeString [encodeURL ! x, encodeURL ! y] = Some [char_of ((x * 64 + y) div 16)]"
    using letter[OF l(1)] letter[OF l(2)] by simp
  moreover have "(x * 64 + y) div 16 = byte a"
    unfolding x_def y_def v_def by (rule decode_one)
  ultimately show ?case by (simp only: enc char_of_byte)
next
  case (3 a b)
  define v where "v = byte a * 65536 + byte b * 256"
  define x where "x = v div 262144"
  define y where "y = v div 4096 mod 64"
  define z where "z = v div 64 mod 64"
  have "v < 16777216" using byte_less[of a] byte_less[of b] by (simp add: v_def)
  from sextets[OF this] have l: "x < 64" "y < 64" "z < 64" by (simp_all add: x_def y_def z_def)
  have enc: "RawEncode [a, b] = [encodeURL ! x, encodeURL ! y, encodeURL ! z]"
    by (simp add: Let_def x_def y_def z_def v_def)
  have "DecodeString [encodeURL ! x, encodeURL ! y, encodeURL ! z]
          = Some [char_of ((x * 4096 + y * 64 + z) div 1024),
                  char_of ((x * 4096 + y * 64 + z) div 4 mod 256)]"
    using letter[OF l(1)] letter[OF l(2)] letter[OF l(3)] by (simp add: Let_def)
  moreover have "(x * 4096 + y * 64 + z) div 1024 = byte a"
    "(x * 4096 + y * 64 + z) div 4 mod 256 = byte b"
    unfolding x_def y_def z_def v_def by (rule decode_two[OF byte_less])+
  ultimately show ?case by (simp only: enc char_of_byte)
next
  case (4 a b c rest)
  define v where "v = byte a * 65536 + byte b * 256 + byte c"
  define x where "x = v div 262144"
  define y where "y = v div 4096 mod 64"
  define z where "z = v div 64 mod 64"
  define w where "w = v mod 64"
  have "v < 16777216"
    using byte_less[of a] byte_less[of b] byte_less[of c] by (simp add: v_def)
  from sextets[OF this] have l: "x < 64" "y < 64" "z < 64" "w < 64"
    by (simp_all add: x_def y_def z_def w_def)
  have enc: "RawEncode (a # b # c # rest)
               = encodeURL ! x # encodeURL ! y # encodeURL ! z # encodeURL ! w # RawEncode rest"
    by (simp add: Let_def x_def y_def z_def w_def v_def)
  have r: "x * 262144 + y * 4096 + z * 64 + w = v"
    unfolding x_def y_def z_def w_def by (rule resextet)
  have "DecodeString (encodeURL ! x # encodeURL ! y # encodeURL ! z # encodeURL ! w # RawEncode rest)
          = map_option
              (\<lambda>t. char_of (v div 65536) # char_of (v div 256 mod 256) # char_of (v mod 256) # t)
              (DecodeString (RawEncode rest))"
    using letter[OF l(1)] letter[OF l(2)] letter[OF l(3)] letter[OF l(4)]
    by (simp add: Let_def r)
  moreover have "v div 65536 = byte a" "v div 256 mod 256 = byte b" "v mod 256 = byte c"
    unfolding v_def by (rule bytes3[OF byte_less byte_less byte_less])+
  ultimately show ?case using 4 by (simp only: enc char_of_byte) simp
qed

section \<open>Lemmas on JSON strings\<close>

lemma hexdigits: "list_all (\<lambda>k. ishex (hex ! k) \<and> unhex (hex ! k) = k) [0..<16]"
  by code_simp

lemma hexdigit: "k < 16 \<Longrightarrow> ishex (hex ! k) \<and> unhex (hex ! k) = k"
  using hexdigits by (simp add: list_all_iff)

lemma quote_chars:
  "dquote \<noteq> backslash" "backslash \<noteq> dquote" "byte dquote = 34" "byte backslash = 92"
  by (simp_all add: dquote_def backslash_def byte_def)

lemma unquote_plain:
  assumes "c \<noteq> dquote" "c \<noteq> backslash" "\<not> byte c < 0x20"
  shows "unquote (c # cs) = map_option (\<lambda>(s, rest). (c # s, rest)) (unquote cs)"
  using assms by simp

lemma unquote_escape:
  assumes "unescapeChar e = Some x" "e \<noteq> CHR ''u''"
  shows "unquote (backslash # e # r) = map_option (\<lambda>(s, rest). (x # s, rest)) (unquote r)"
  using assms by (simp add: quote_chars)

lemma unquote_u:
  assumes "ishex h1" "ishex h2" "ishex h3" "ishex h4"
  shows "unquote (backslash # CHR ''u'' # h1 # h2 # h3 # h4 # r) =
           map_option (\<lambda>(s, rest). (EncodeRune (hexval [h1, h2, h3, h4]) @ s, rest)) (unquote r)"
  using assms by (simp add: quote_chars)

lemma unquote_raw:
  assumes "list_all (\<lambda>c. 0x80 \<le> byte c) xs"
  shows "unquote (xs @ ys) = map_option (\<lambda>(s, rest). (xs @ s, rest)) (unquote ys)"
  using assms
proof (induction xs)
  case Nil
  then show ?case by (simp add: option.map_ident split_def)
next
  case (Cons x xs)
  then have x: "x \<noteq> dquote" "x \<noteq> backslash" "\<not> byte x < 0x20"
    by (auto simp: quote_chars)
  show ?case
    using Cons by (simp only: append_Cons unquote_plain[OF x]) (simp add: option.map_comp comp_def split_def)
qed


text \<open>A well-formed sequence has two to four bytes, none of them ASCII.\<close>

lemma DecodeRune_valid:
  assumes "DecodeRune (s0 # t) = (c, n)" "0x80 \<le> s0" "\<not> (c = RuneError \<and> n = 1)"
  shows "2 \<le> n \<and> n \<le> 4 \<and> n \<le> length (s0 # t) \<and> list_all (\<lambda>x. 0x80 \<le> x) (take n (s0 # t))"
proof (cases t)
  case Nil
  then show ?thesis using assms by (auto split: if_splits)
next
  case t: (Cons s1 t1)
  show ?thesis
  proof (cases t1)
    case Nil
    then show ?thesis using assms t
      by (auto simp: acceptLo_def split: if_splits)
  next
    case t1: (Cons s2 t2)
    show ?thesis
    proof (cases t2)
      case Nil
      then show ?thesis using assms t t1
        by (auto simp: acceptLo_def split: if_splits)
    next
      case (Cons s3 t3)
      then show ?thesis using assms t t1
        by (auto simp: acceptLo_def split: if_splits)
    qed
  qed
qed


text \<open>The only sequences that decode to U+2028 and U+2029.\<close>

lemma three_digits:
  fixes i j k d :: nat
  assumes "i * 4096 + j * 64 + k = 8232 + d" "j < 64" "k < 64" "d \<le> 1"
  shows "i = 2 \<and> j = 0 \<and> k = 40 + d"
proof -
  have "i * 4096 \<le> 8233" using assms by linarith
  then have i2: "i \<le> 2" by simp
  have "j * 64 + k \<le> 4095" using assms(2,3) by linarith
  then have "4137 \<le> i * 4096" using assms(1) by linarith
  then have "2 \<le> i" by simp
  with i2 have i: "i = 2" by simp
  then have e: "j * 64 + k = 40 + d" using assms(1) by simp
  then have "j * 64 \<le> 41" using assms(4) by linarith
  then have j: "j = 0" by simp
  then show ?thesis using i e by simp
qed

lemma mod_window:
  fixes x m q :: nat
  assumes "m * q \<le> x" "x < m * q + m"
  shows "x mod m = x - m * q"
proof -
  have "x mod m = ((x - m * q) + m * q) mod m" using assms(1) by simp
  also have "\<dots> = (x - m * q) mod m" by (rule mod_mult_self2)
  also have "\<dots> = x - m * q" using assms by (intro mod_less) linarith
  finally show ?thesis .
qed

lemma DecodeRune_separator:
  assumes D: "DecodeRune (s0 # t) = (c, n)" and s0: "0x80 \<le> s0" and c: "c = 0x2028 + d" "d \<le> 1"
  shows "take n (s0 # t) = [0xE2, 0x80, 0xA8 + d]"
proof -
  have ne: "\<not> (c = RuneError \<and> n = 1)" using c by (simp add: RuneError_def)
  have ok: "runeLen s0 \<noteq> 0" "runeLen s0 \<le> length (s0 # t)"
    using D s0 ne by (auto split: if_splits)
  have two: "runeLen s0 \<noteq> 2"
  proof
    assume r: "runeLen s0 = 2"
    then obtain s1 t1 where t: "t = s1 # t1" using ok by (cases t) auto
    have "c = s0 mod 32 * 64 + s1 mod 64"
      using D s0 r ne unfolding t by (simp split: if_splits)
    moreover have "s0 mod 32 * 64 + s1 mod 64 < 2048"
    proof -
      have "s0 mod 32 < 32" "s1 mod 64 < 64" by simp_all
      then show ?thesis by linarith
    qed
    ultimately show False using c by simp
  qed
  have four: "runeLen s0 \<noteq> 4"
  proof
    assume r: "runeLen s0 = 4"
    then obtain s1 t1 where t: "t = s1 # t1" using ok by (cases t) auto
    then obtain s2 t2 where t1: "t1 = s2 # t2" using ok r by (cases t1) auto
    then obtain s3 t3 where t2: "t2 = s3 # t3" using ok r t by (cases t2) auto
    have v: "c = s0 mod 8 * 262144 + s1 mod 64 * 4096 + s2 mod 64 * 64 + s3 mod 64"
      and a: "acceptLo s0 \<le> s1" "s1 \<le> acceptHi s0"
      using D s0 r ne unfolding t t1 t2 by (simp_all split: if_splits)
    have s: "0xF0 \<le> s0" "s0 \<le> 0xF4"
      using r by (simp_all add: runeLen_def split: if_splits)
    have "65536 \<le> s0 mod 8 * 262144 + s1 mod 64 * 4096"
    proof (cases "s0 = 0xF0")
      case True
      then have "0x90 \<le> s1" "s1 \<le> 0xBF" using a by (simp_all add: acceptLo_def acceptHi_def)
      then have "16 \<le> s1 mod 64" using mod_window[of 64 2 s1] by simp
      then show ?thesis by linarith
    next
      case False
      then have "1 \<le> s0 mod 8" using s mod_window[of 8 30 s0] by simp
      then show ?thesis by linarith
    qed
    then show False using v c by linarith
  qed
  have three: "runeLen s0 = 3"
    using ok(1) two four s0 by (simp add: runeLen_def split: if_splits)
  then obtain s1 t1 where t: "t = s1 # t1" using ok by (cases t) auto
  then obtain s2 t2 where t1: "t1 = s2 # t2" using ok three by (cases t1) auto
  have v: "c = s0 mod 16 * 4096 + s1 mod 64 * 64 + s2 mod 64" and n: "n = 3"
    and a: "acceptLo s0 \<le> s1" "s1 \<le> acceptHi s0" "0x80 \<le> s2" "s2 \<le> 0xBF"
    using D s0 three ne unfolding t t1 by (simp_all split: if_splits)
  have s: "0xE0 \<le> s0" "s0 \<le> 0xEF"
    using three by (simp_all add: runeLen_def split: if_splits)
  have b: "0x80 \<le> s1" "s1 \<le> 0xBF"
    using a(1,2) by (simp_all add: acceptLo_def acceptHi_def split: if_splits)
  have m0: "s0 mod 16 = s0 - 224" using s mod_window[of 16 14 s0] by simp
  have m1: "s1 mod 64 = s1 - 128" using b mod_window[of 64 2 s1] by simp
  have m2: "s2 mod 64 = s2 - 128" using a(3,4) mod_window[of 64 2 s2] by simp
  have "s0 mod 16 * 4096 + s1 mod 64 * 64 + s2 mod 64 = 8232 + d" using v c by simp
  from three_digits[OF this _ _ c(2)]
  have "s0 mod 16 = 2" "s1 mod 64 = 0" "s2 mod 64 = 40 + d" by simp_all
  then have "s0 = 0xE2" "s1 = 0x80" "s2 = 0xA8 + d"
    using s b a(3,4) unfolding m0 m1 m2 by simp_all
  then show ?thesis using t t1 n by simp
qed


lemma byte_char_of: "n < 256 \<Longrightarrow> byte (char_of n) = n"
  by (simp add: byte_def)

lemma chars_of_bytes: "map byte xs = ns \<Longrightarrow> xs = map char_of ns"
  by (auto simp: char_of_byte comp_def)

text \<open>An ASCII byte: what is written for it reads back as the byte.\<close>

lemma unquote_ascii:
  assumes a: "byte b < 0x80" and tail: "unquote (quoted bs @ dquote # rest) = Some (bs, rest)"
  shows "unquote (quoted (b # bs) @ dquote # rest) = Some (b # bs, rest)"
proof -
  consider (safe) "htmlSafeSet b"
    | (short) "\<not> htmlSafeSet b" "b \<in> {backslash, dquote, CHR 0x08, CHR 0x0C, CHR 0x0A, CHR 0x0D, CHR 0x09}"
    | (long) "\<not> htmlSafeSet b" "b \<notin> {backslash, dquote, CHR 0x08, CHR 0x0C, CHR 0x0A, CHR 0x0D, CHR 0x09}"
    by blast
  then show ?thesis
  proof cases
    case safe
    then have "b \<noteq> dquote" "b \<noteq> backslash" "\<not> byte b < 0x20"
      by (auto simp: htmlSafeSet_def)
    from unquote_plain[OF this] safe a tail show ?thesis by simp
  next
    case short
    then show ?thesis
      using a tail
      by (auto simp: unescapeChar_def dquote_def backslash_def)
  next
    case long
    let ?h1 = "hex ! (byte b div 16)"
    let ?h2 = "hex ! (byte b mod 16)"
    have q: "quoted (b # bs) = backslash # CHR ''u'' # CHR ''0'' # CHR ''0'' # ?h1 # ?h2 # quoted bs"
      using long a by simp
    have "byte b div 16 < 16" "byte b mod 16 < 16" using a by simp_all
    then have h: "ishex ?h1" "unhex ?h1 = byte b div 16" "ishex ?h2" "unhex ?h2 = byte b mod 16"
      using hexdigit by blast+
    have z: "ishex (CHR ''0'')" "unhex (CHR ''0'') = 0"
      by (simp_all add: ishex_def unhex_def byte_def)
    have "hexval [CHR ''0'', CHR ''0'', ?h1, ?h2] = byte b div 16 * 16 + byte b mod 16"
      by (simp add: hexval_def z h)
    then have "hexval [CHR ''0'', CHR ''0'', ?h1, ?h2] = byte b" by simp
    then have "EncodeRune (hexval [CHR ''0'', CHR ''0'', ?h1, ?h2]) = [b]"
      using a by (simp add: EncodeRune_def char_of_byte)
    then show ?thesis
      unfolding q using unquote_u[OF z(1) z(1) h(1) h(3)] tail by simp
  qed
qed


text \<open>A well-formed multi-byte sequence: what is written for it reads back as its bytes.\<close>

lemma unquote_multibyte:
  assumes hi: "\<not> byte b < 0x80"
    and d: "DecodeRuneInString (take 4 (b # bs)) = (c, n)"
    and ok: "\<not> (c = RuneError \<and> n = 1)"
    and tail: "unquote (quoted (drop (n - 1) bs) @ dquote # rest) = Some (drop (n - 1) bs, rest)"
  shows "unquote (quoted (b # bs) @ dquote # rest) = Some (b # bs, rest)"
proof -
  have D: "DecodeRune (byte b # map byte (take 3 bs)) = (c, n)"
    using d by (simp add: DecodeRuneInString_def)
  from DecodeRune_valid[OF D _ ok] hi
  have n: "2 \<le> n" "n \<le> 4" "n \<le> length (byte b # map byte (take 3 bs))"
    and all: "list_all (\<lambda>x. 0x80 \<le> x) (take n (byte b # map byte (take 3 bs)))"
    by simp_all
  have tk: "take n (byte b # map byte (take 3 bs)) = map byte (take n (b # bs))"
  proof -
    have "byte b # map byte (take 3 bs) = map byte (take 4 (b # bs))" by simp
    then have "take n (byte b # map byte (take 3 bs)) = map byte (take n (take 4 (b # bs)))"
      by (simp only: take_map)
    then show ?thesis using n(2) by (simp only: take_take) (simp add: min_def)
  qed
  have raw: "list_all (\<lambda>x. 0x80 \<le> byte x) (take n (b # bs))"
    using all unfolding tk by (simp add: list_all_iff)
  have split: "take n (b # bs) @ drop (n - 1) bs = b # bs"
  proof -
    have "drop n (b # bs) = drop (n - 1) bs" using n(1) by (cases n) simp_all
    then have "take n (b # bs) @ drop (n - 1) bs = take n (b # bs) @ drop n (b # bs)"
      by (simp only:)
    then show ?thesis by (simp only: append_take_drop_id)
  qed
  show ?thesis
  proof (cases "c = 0x2028 \<or> c = 0x2029")
    case False
    then have q: "quoted (b # bs) = take n (b # bs) @ quoted (drop (n - 1) bs)"
      using hi d ok by simp
    show ?thesis
      unfolding q using unquote_raw[OF raw] tail split by simp
  next
    case True
    then have "c = 0x2028 + 0 \<or> c = 0x2028 + 1" by simp
    then obtain e :: nat where e: "c = 0x2028 + e" "e \<le> 1" by auto
    from DecodeRune_separator[OF D _ e] hi
    have "take n (byte b # map byte (take 3 bs)) = [0xE2, 0x80, 0xA8 + e]" by simp
    then have "map byte (take n (b # bs)) = [0xE2, 0x80, 0xA8 + e]"
      by (simp only: tk)
    then have bytes: "take n (b # bs) = [char_of (0xE2 :: nat), char_of (0x80 :: nat), char_of (0xA8 + e)]"
      using chars_of_bytes[of "take n (b # bs)" "[0xE2, 0x80, 0xA8 + e]"] by simp
    have e01: "e = 0 \<or> e = 1" using e(2) by auto
    have enc: "EncodeRune c = take n (b # bs)"
      using e01 unfolding bytes e(1) by (auto simp: EncodeRune_def)
    let ?h = "hex ! (c mod 16)"
    have q: "quoted (b # bs)
               = backslash # CHR ''u'' # CHR ''2'' # CHR ''0'' # CHR ''2'' # ?h # quoted (drop (n - 1) bs)"
      using hi d ok True by simp
    have h: "ishex ?h" "unhex ?h = c mod 16"
      using hexdigit[of "c mod 16"] by simp_all
    have z: "ishex (CHR ''0'')" "unhex (CHR ''0'') = 0" "ishex (CHR ''2'')" "unhex (CHR ''2'') = 2"
      by (simp_all add: ishex_def unhex_def byte_def)
    have "hexval [CHR ''2'', CHR ''0'', CHR ''2'', ?h] = 8224 + c mod 16"
      by (simp add: hexval_def z h)
    also have "\<dots> = c" using e01 e(1) by auto
    finally have hv: "hexval [CHR ''2'', CHR ''0'', CHR ''2'', ?h] = c" .
    show ?thesis
      unfolding q using unquote_u[OF z(3) z(1) z(3) h(1)] tail split
      by (simp add: hv enc)
  qed
qed


text \<open>A string of well-formed UTF-8 reads back from its serialisation.\<close>

lemma unquote_quoted:
  "ValidString s \<Longrightarrow> unquote (quoted s @ dquote # rest) = Some (s, rest)"
proof (induction "length s" arbitrary: s rule: less_induct)
  case less
  show ?case
  proof (cases s)
    case Nil
    then show ?thesis by simp
  next
    case (Cons b bs)
    show ?thesis
    proof (cases "byte b < 0x80")
      case True
      then have "ValidString bs" using less.prems Cons by simp
      then have "unquote (quoted bs @ dquote # rest) = Some (bs, rest)"
        using less.hyps[of bs] Cons by simp
      from unquote_ascii[OF True this] show ?thesis by (simp only: Cons)
    next
      case False
      obtain c n where d: "DecodeRuneInString (take 4 (b # bs)) = (c, n)"
        by (cases "DecodeRuneInString (take 4 (b # bs))") auto
      have "ValidString (b # bs)" using less.prems Cons by simp
      then have ok: "\<not> (c = RuneError \<and> n = 1)" and v: "ValidString (drop (n - 1) bs)"
        using False d by (simp_all del: take_Cons_numeral)
      have "unquote (quoted (drop (n - 1) bs) @ dquote # rest) = Some (drop (n - 1) bs, rest)"
        using less.hyps[of "drop (n - 1) bs"] v Cons by simp
      from unquote_multibyte[OF False d ok this] show ?thesis by (simp only: Cons)
    qed
  qed
qed

lemma appendString_reads_back:
  "ValidString s \<Longrightarrow> unquote (tl (appendString s) @ rest) = Some (s, rest)"
  by (simp add: appendString_def unquote_quoted)

section \<open>Lemmas on the sub-protocol string\<close>

lemma sorted_authExt:
  "sort_key fst (authExtOf h c) = [(''Authorization'', c), (''host'', h)]"
  by (simp add: authExtOf_def less_eq_char_def less_char_def)

lemma quoted_keys: "quoted ''Authorization'' = ''Authorization''" "quoted ''host'' = ''host''"
  by (simp_all add: htmlSafeSet_def byte_def dquote_def backslash_def)

lemma valid_keys: "ValidString ''Authorization''" "ValidString ''host''"
  by (simp_all add: byte_def)

lemma Marshal_authExt:
  "Marshal_map (authExtOf h c) =
     CHR ''{'' # dquote # quoted ''Authorization'' @ dquote # CHR '':'' # dquote # quoted c
       @ dquote # CHR '','' # dquote # quoted ''host'' @ dquote # CHR '':'' # dquote # quoted h
       @ dquote # ''}''"
  unfolding Marshal_map_def sorted_authExt by (simp add: appendString_def)


text \<open>
  Reading the members of an object whose two keys and two values are given as texts
  \<open>q\<close> that \<open>unquote\<close> reads back.
\<close>

lemma members_two:
  assumes 1: "\<And>rest. unquote (q1 @ dquote # rest) = Some (k1, rest)"
    and 2: "\<And>rest. unquote (q2 @ dquote # rest) = Some (v1, rest)"
    and 3: "\<And>rest. unquote (q3 @ dquote # rest) = Some (k2, rest)"
    and 4: "\<And>rest. unquote (q4 @ dquote # rest) = Some (v2, rest)"
  shows "members (Suc (Suc m))
           (dquote # q1 @ dquote # CHR '':'' # dquote # q2 @ dquote # CHR '','' #
            dquote # q3 @ dquote # CHR '':'' # dquote # q4 @ dquote # ''}'')
         = Some ([(k1, v1), (k2, v2)], [])"
proof -
  let ?second = "dquote # q3 @ dquote # CHR '':'' # dquote # q4 @ dquote # ''}''"
  have s: "members (Suc m) ?second = Some ([(k2, v2)], [])"
    by (simp add: 3 4 HasPrefix_def)
  have "members (Suc (Suc m))
           (dquote # q1 @ dquote # CHR '':'' # dquote # q2 @ dquote # CHR '','' # ?second)
        = map_option (\<lambda>(ms, rest). ((k1, v1) # ms, rest)) (members (Suc m) ?second)"
    by (subst members.simps) (simp add: 1 2 HasPrefix_def del: members.simps)
  then show ?thesis by (simp only: s) simp
qed

lemma Unmarshal_object:
  assumes "members (Suc (Suc (length x))) (dquote # x) = Some (m, [])"
  shows "Unmarshal_map (CHR ''{'' # dquote # x) = Some m"
proof -
  have ne: "CHR ''{'' # dquote # x \<noteq> ''{}''"
    by (simp add: dquote_def)
  have p: "HasPrefix (CHR ''{'' # dquote # x) ''{''"
    by (simp add: HasPrefix_def)
  have l: "length (CHR ''{'' # dquote # x) = Suc (Suc (length x))"
    by (simp only: length_Cons)
  have d: "drop 1 (CHR ''{'' # dquote # x) = dquote # x"
    by simp
  show ?thesis
    unfolding Unmarshal_map_def
    by (simp only: ne p l d assms if_False not_True_eq_False option.case prod.case list.case)
qed

lemma Unmarshal_authExt:
  assumes "ValidString h" "ValidString c"
  shows "Unmarshal_map (Marshal_map (authExtOf h c)) = Some [(''Authorization'', c), (''host'', h)]"
  unfolding Marshal_authExt
  by (rule Unmarshal_object, rule members_two) (rule unquote_quoted valid_keys assms)+

lemma subprotocol_raw: "subprotocol ext = ''header-'' @ RawEncode (Marshal_map ext)"
  by (simp add: subprotocol_def ReplaceAll_pad strip_padding)

lemma readSubprotocol_subprotocol:
  "readSubprotocol (subprotocol ext) = Unmarshal_map (Marshal_map ext)"
  by (simp add: subprotocol_raw readSubprotocol_def HasPrefix_def DecodeString_RawEncode)

lemma quoted_invalid:
  "quoted [CHR 0xFF] = backslash # ''ufffd''" "quoted [CHR 0xFE] = backslash # ''ufffd''"
  by (simp_all add: DecodeRuneInString_def byte_def runeLen_def RuneError_def)

lemma unquote_replacement:
  "unquote (quoted [CHR 0xFF] @ dquote # rest) = Some ([CHR 0xEF, CHR 0xBF, CHR 0xBD], rest)"
proof -
  have h: "ishex (CHR ''f'')" "ishex (CHR ''d'')" "unhex (CHR ''f'') = 15" "unhex (CHR ''d'') = 13"
    by (simp_all add: ishex_def unhex_def byte_def)
  have "hexval ''fffd'' = 0xFFFD" by (simp add: hexval_def h)
  moreover have "char_of (239 :: nat) = CHR 0xEF" "char_of (191 :: nat) = CHR 0xBF"
    "char_of (189 :: nat) = CHR 0xBD"
    using char_of_byte[of "CHR 0xEF"] char_of_byte[of "CHR 0xBF"] char_of_byte[of "CHR 0xBD"]
    by (simp_all add: byte_def)
  ultimately have "EncodeRune (hexval ''fffd'') = [CHR 0xEF, CHR 0xBF, CHR 0xBD]"
    by (simp add: EncodeRune_def)
  then have "unquote (backslash # CHR ''u'' # CHR ''f'' # CHR ''f'' # CHR ''f'' # CHR ''d'' # dquote # rest)
               = Some ([CHR 0xEF, CHR 0xBF, CHR 0xBD], rest)"
    by (simp only: unquote_u[OF h(1) h(1) h(1) h(2)]) simp
  then show ?thesis
    unfolding quoted_invalid(1) by (simp del: unquote.simps)
qed

section \<open>The scenarios, run\<close>

lemmas scenario_defs =
  Subscribe_def session_def initConnection_def start_def scripted_def msg_def
  unexpectedPacket_def websocketErrors_def dialling_def acked_def startMsg_def
  succeeds_def refuses_def keepAndStop_def keepAndGoOn_def happyScript_def happyTrace_def
  Let_def

lemma run_refused:
  "Subscribe (scripted [msg ''connection_ack'' [] None, msg ''start_ack'' subID None] True)
     ''https://svc.example.com'' ''token'' refuses keepAndStop [] =
   (Returns (Some (Errorf ''onReady error'' (Lib ''failed to request''))),
    acked @ [Close Deferred, Cancel, Close Watcher], [])"
  by (simp add: scenario_defs)

lemma run_happy:
  "Subscribe (scripted happyScript True) ''https://svc.example.com'' ''token'' succeeds
     keepAndStop [] =
   (Returns None, happyTrace, [Some result])"
  by (simp add: scenario_defs subID_def)

lemma run_rejected:
  "Subscribe (scripted [msg ''ka'' [] None, msg ''connection_error'' [] (Some rejected)] True)
     ''https://svc.example.com'' ''token'' succeeds keepAndStop [] =
   (Returns (Some (Errorf ''failed to init connection''
                     (ErrorfPayload ErrUnexpected ''connection error'' (Some rejected)))),
    dialling
    @ [ReadJSON (Some \<lparr>Type = ''ka'', Payload = None, ID = []\<rparr>),
       Slog Warn ''Received unexpected packet'' [(''type'', Str ''ka'')],
       ReadJSON (Some \<lparr>Type = ''connection_error'', Payload = Some rejected, ID = []\<rparr>),
       Close Deferred, Cancel, Close Watcher],
    [])"
  by (simp add: scenario_defs)

lemma run_cancelled:
  "Subscribe (scripted cancelledScript False) ''https://svc.example.com'' ''token'' succeeds
     keepAndStop [] =
   (Returns (Some (Errorf ''failed to process subscription''
                     (Errorf ''failed to read packet''
                        (Errorf ''failed to read JSON''
                           (Lib ''use of closed network connection''))))),
    acked @ [Close Watcher, Close Deferred, Cancel], [])"
  by (simp add: scenario_defs cancelledScript_def)

lemma run_dialFails:
  "Subscribe dialFails ''https://svc.example.com'' ''token'' succeeds keepAndStop [] =
   (Returns (Some (Errorf ''failed to dial websocket'' (Lib ''bad handshake''))),
    [Slog Debug ''Connecting to websocket''
        [(''endpoint'', Str (fst (GenerateWSAddr exampleURL)))],
      Dial (fst (GenerateWSAddr exampleURL))
        [''graphql-ws'', subprotocol (authExtOf (Hostname exampleURL) ''token'')],
      Cancel], [])"
  by (simp add: scenario_defs dialFails_def)

lemma run_error_without_payload:
  "Subscribe (scripted [msg ''connection_ack'' [] None, msg ''error'' [] None] False)
     ''https://svc.example.com'' ''token'' succeeds keepAndStop [] =
   (Panics,
    dialling
    @ [ReadJSON (Some \<lparr>Type = ''connection_ack'', Payload = None, ID = []\<rparr>),
       Slog Debug ''Websocket initialized'' [],
       WriteJSON startMsg,
       ReadJSON (Some \<lparr>Type = ''error'', Payload = None, ID = []\<rparr>),
       Close Deferred, Cancel], [])"
  by (simp add: scenario_defs)

lemma run_data_without_payload:
  "Subscribe (scripted [msg ''connection_ack'' [] None, msg ''start_ack'' subID None,
                        msg ''data'' subID None] False)
     ''https://svc.example.com'' ''token'' succeeds keepAndStop [] =
   (Panics,
    acked @ [ReadJSON (Some \<lparr>Type = ''data'', Payload = None, ID = subID\<rparr>),
             Close Deferred, Cancel], [])"
  by (simp add: scenario_defs)

lemma run_stopped_cancelled:
  "Subscribe ((scripted stoppedScript False)\<lparr>doneBeforeReturn := True\<rparr>)
     ''https://svc.example.com'' ''token'' succeeds keepAndStop [] =
   (Returns None,
    delivered @ [Slog Debug ''Data handler requested exit'' [],
                 Close Watcher, Close Deferred, Cancel],
    [Some result])"
  by (simp add: scenario_defs stoppedScript_def delivered_def)

lemma run_busy_cancelled:
  "Subscribe (scripted busyScript False) ''https://svc.example.com'' ''token'' succeeds
     keepAndGoOn [] =
   (Returns (Some (Errorf ''failed to process subscription''
                     (Errorf ''failed to read packet''
                        (Errorf ''failed to set read deadline''
                           (Lib ''use of closed network connection''))))),
    delivered @ [Close Watcher, Close Deferred, Cancel],
    [Some result])"
  by (simp add: scenario_defs stoppedScript_def busyScript_def delivered_def)

lemma run_waiting:
  "Subscribe (scripted [msg ''connection_ack'' [] None, msg ''start_ack'' subID None] False)
     ''https://svc.example.com'' ''token'' succeeds keepAndStop [] =
   (Returns (Some (Errorf ''failed to process subscription''
                     (Errorf ''failed to read packet'' readSilent))),
    acked @ [Close Deferred, Cancel], [])"
  by (simp add: scenario_defs)

section \<open>The claims\<close>

text \<open>
  C1. In every run of \<open>Subscribe\<close> the trigger \<open>onReady\<close> is called at most once, and every
  call comes strictly after the read of a \<open>start_ack\<close> that carries the identifier of this
  subscription.  When the trigger fails, \<open>Subscribe\<close> returns that error wrapped as
  \<open>onReady error\<close>, the handler is never called, and nothing is read any more: the call of the
  trigger is followed by the deferred close and cancel and by the watcher's close only.
\<close>

theorem trigger_follows_start_ack:
  assumes S: "Subscribe w endpoint accessToken onReady onData h = (r, evs, h')"
  shows "length (filter isOnReady evs) \<le> 1
    \<and> (\<forall>i < length evs. isOnReady (evs ! i) \<longrightarrow> (\<exists>j < i. startAck (uuid w) (evs ! j)))
    \<and> (\<forall>e. onReady (WithCancel Caller) = Some e \<and> filter isOnReady evs \<noteq> [] \<longrightarrow>
          r = Returns (Some (Errorf ''onReady error'' e)) \<and> h' = h \<and> filter isOnData evs = []
          \<and> (\<exists>pre. evs = pre @ OnReady (WithCancel Caller)
                        # (if doneBeforeReturn w \<and> Close Watcher \<notin> set pre
                           then [Close Watcher] else [])
                        @ Close Deferred # Cancel
                        # (if watcherRuns w \<and> \<not> doneBeforeReturn w \<and> Close Watcher \<notin> set pre
                           then [Close Watcher] else [])))"
proof (cases "parsed w")
  case (Inl e)
  then have "evs = [Cancel]" using S by (simp add: Subscribe_def)
  then show ?thesis by simp
next
  case (Inr u)
  show ?thesis
  proof (cases "dialed w")
    case (Some e)
    then have "evs = [Slog Debug ''Connecting to websocket'' [(''endpoint'', Str (fst (GenerateWSAddr u)))],
               Dial (fst (GenerateWSAddr u)) [''graphql-ws'', subprotocol (authExtOf (Hostname u) accessToken)], Cancel]"
      using S Inr by (simp add: Subscribe_def Let_def)
    then show ?thesis by (simp add: nth_Cons split: nat.splits)
  next
    case None
    let ?s = "\<lparr>authExt = authExtOf (Hostname u) accessToken, reqID = uuid w\<rparr>"
    let ?P = "[Slog Debug ''Connecting to websocket'' [(''endpoint'', Str (fst (GenerateWSAddr u)))],
               Dial (fst (GenerateWSAddr u)) [''graphql-ws'', subprotocol (authExtOf (Hostname u) accessToken)]]"
    obtain rs es hs where ses: "session w ?s onReady onData h = (rs, es, hs)"
      by (cases "session w ?s onReady onData h") auto
    let ?T = "(if doneBeforeReturn w \<and> Close Watcher \<notin> set es then [Close Watcher] else [])
              @ [Close Deferred, Cancel]
              @ (if watcherRuns w \<and> \<not> doneBeforeReturn w \<and> Close Watcher \<notin> set es
                 then [Close Watcher] else [])"
    have evs: "evs = ?P @ es @ ?T" and r: "r = rs" and h': "h' = hs"
      using S ses Subscribe_dialed[OF Inr None, of endpoint accessToken onReady onData h] by auto
    have T: "filter isOnReady ?T = []" "filter isOnData ?T = []" by auto
    from session_shape[OF ses] show ?thesis
    proof
      assume a: "list_all wire es \<and> hs = h \<and> rs \<noteq> Returns None"
      then have "filter isOnReady es = []" by (simp add: all_wire_no_OnReady)
      then have "filter isOnReady evs = []" using evs by simp
      then show ?thesis by (auto simp: filter_empty_conv)
    next
      assume "\<exists>pre post. es = pre @ OnReady (WithCancel Caller) # post
             \<and> list_all wire pre \<and> (\<exists>e \<in> set pre. startAck (reqID ?s) e)
             \<and> (case onReady (WithCancel Caller) of
                   Some e \<Rightarrow> post = [] \<and> rs = Returns (Some (Errorf ''onReady error'' e)) \<and> hs = h
                 | None \<Rightarrow> (\<exists>fs r3. set fs \<subseteq> set (frames w)
                              \<and> process (reqID ?s) onData h fs = (r3, post, hs)
                              \<and> rs = failing ''failed to process subscription'' r3))"
      then obtain pre post where es: "es = pre @ OnReady (WithCancel Caller) # post"
        and wpre: "list_all wire pre" and ack: "\<exists>e \<in> set pre. startAck (uuid w) e"
        and rest: "case onReady (WithCancel Caller) of
                   Some e \<Rightarrow> post = [] \<and> rs = Returns (Some (Errorf ''onReady error'' e)) \<and> hs = h
                 | None \<Rightarrow> (\<exists>fs r3. set fs \<subseteq> set (frames w)
                              \<and> process (reqID ?s) onData h fs = (r3, post, hs)
                              \<and> rs = failing ''failed to process subscription'' r3)"
        by auto
      have npre: "filter isOnReady pre = []" "filter isOnData pre = []"
        using wpre by (simp_all add: all_wire_no_OnReady all_wire_no_OnData)
      have npost: "filter isOnReady post = []"
        using rest by (auto split: option.splits dest: process_no_OnReady)
      have shape: "evs = (?P @ pre) @ OnReady (WithCancel Caller) # (post @ ?T)"
        using evs es by simp
      have c1: "length (filter isOnReady evs) \<le> 1"
        unfolding shape using npre npost by simp
      have c2: "\<forall>i < length evs. isOnReady (evs ! i) \<longrightarrow> (\<exists>j < i. startAck (uuid w) (evs ! j))"
      proof (rule ready_index[OF shape])
        show "filter isOnReady (?P @ pre) = []" using npre by simp
        show "filter isOnReady (post @ ?T) = []" using npost by simp
        show "\<exists>e \<in> set (?P @ pre). startAck (uuid w) e" using ack by auto
      qed
      have c3: "r = Returns (Some (Errorf ''onReady error'' e)) \<and> h' = h \<and> filter isOnData evs = []
          \<and> (\<exists>pre. evs = pre @ OnReady (WithCancel Caller)
                        # (if doneBeforeReturn w \<and> Close Watcher \<notin> set pre
                           then [Close Watcher] else [])
                        @ Close Deferred # Cancel
                        # (if watcherRuns w \<and> \<not> doneBeforeReturn w \<and> Close Watcher \<notin> set pre
                           then [Close Watcher] else []))"
        if f: "onReady (WithCancel Caller) = Some e" for e
      proof -
        from rest f have p: "post = []" "rs = Returns (Some (Errorf ''onReady error'' e))" "hs = h"
          by auto
        have m: "Close Watcher \<notin> set es \<longleftrightarrow> Close Watcher \<notin> set (?P @ pre)"
          using es p by simp
        have "evs = (?P @ pre) @ OnReady (WithCancel Caller)
                        # (if doneBeforeReturn w \<and> Close Watcher \<notin> set (?P @ pre)
                           then [Close Watcher] else [])
                        @ Close Deferred # Cancel
                        # (if watcherRuns w \<and> \<not> doneBeforeReturn w \<and> Close Watcher \<notin> set (?P @ pre)
                           then [Close Watcher] else [])"
          unfolding evs m unfolding es p by simp
        then have "\<exists>q. evs = q @ OnReady (WithCancel Caller)
                        # (if doneBeforeReturn w \<and> Close Watcher \<notin> set q
                           then [Close Watcher] else [])
                        @ Close Deferred # Cancel
                        # (if watcherRuns w \<and> \<not> doneBeforeReturn w \<and> Close Watcher \<notin> set q
                           then [Close Watcher] else [])"
          by (rule exI[of _ "?P @ pre"])
        moreover have "filter isOnData evs = []" using evs es p npre by simp
        ultimately show ?thesis using p r h' by simp
      qed
      show ?thesis using c1 c2 c3 by blast
    qed
  qed
qed

theorem trigger_follows_start_ack_witness:
  "Subscribe (scripted happyScript True) ''https://svc.example.com'' ''token'' succeeds
     keepAndStop [] = (Returns None, happyTrace, [Some result])
   \<and> length (filter isOnReady happyTrace) \<le> 1
   \<and> isOnReady (happyTrace ! 11) \<and> (\<exists>j < 11. startAck subID (happyTrace ! j))
   \<and> Subscribe (scripted [msg ''connection_ack'' [] None, msg ''start_ack'' subID None] True)
        ''https://svc.example.com'' ''token'' refuses keepAndStop [] =
      (Returns (Some (Errorf ''onReady error'' (Lib ''failed to request''))),
       acked @ [Close Deferred, Cancel, Close Watcher], [])
   \<and> filter isOnData (acked @ [Close Deferred, Cancel, Close Watcher]) = []"
proof -
  note happy = trigger_follows_start_ack[OF run_happy]
  note refused = trigger_follows_start_ack[OF run_refused]
  have at: "isOnReady (happyTrace ! 11)" "11 < length happyTrace"
    by (simp_all add: happyTrace_def dialling_def)
  have u: "uuid (scripted happyScript True) = subID"
    by (simp add: scripted_def)
  from happy at u have ack: "\<exists>j < 11. startAck subID (happyTrace ! j)"
    by auto
  have "refuses (WithCancel Caller) = Some (Lib ''failed to request'')"
    by (simp add: refuses_def)
  moreover have "filter isOnReady (acked @ [Close Deferred, Cancel, Close Watcher]) \<noteq> []"
    by (simp add: acked_def dialling_def)
  ultimately have "filter isOnData (acked @ [Close Deferred, Cancel, Close Watcher]) = []"
    using refused by blast
  with happy at ack run_happy run_refused show ?thesis by blast
qed


text \<open>
  C5. The data handler is called only for \<open>data\<close> messages that carry the identifier of
  the subscription: every call in a trace of \<open>Subscribe\<close> has the payload of such a
  frame of the script, and the handler's state at the end is the replay of exactly the
  calls in the trace.  A keep-alive read in any of the three loops leaves the loop where
  it is, with the handler's state untouched and no call, and so does a \<open>data\<close> message
  with another identifier in \<open>process\<close>: the loop goes on with the rest of the script.
\<close>

theorem only_matching_data_reaches_handler:
  assumes S: "Subscribe w endpoint accessToken onReady onData h = (r, evs, h')"
  shows "(\<forall>c p. OnData c p \<in> set evs \<longrightarrow> (\<exists>f \<in> set (frames w). dataFor (uuid w) p f))
    \<and> h' = replay onData h evs
    \<and> (Type ka = ''ka'' \<longrightarrow>
         initLoop (Arrives (Some ka) # fs) =
           (case initLoop fs of
              (r1, evs1, fs1) \<Rightarrow> (r1, ReadJSON (Some ka) # unexpectedPacket ka # evs1, fs1))
         \<and> startLoop rid (Arrives (Some ka) # fs) =
           (case startLoop rid fs of (r1, evs1, fs1) \<Rightarrow> (r1, ReadJSON (Some ka) # evs1, fs1))
         \<and> process rid onData h0 (Arrives (Some ka) # fs) =
           (case process rid onData h0 fs of
              (r1, evs1, h1) \<Rightarrow> (r1, ReadJSON (Some ka) # evs1, h1)))
    \<and> (Type d = ''data'' \<and> ID d \<noteq> rid \<longrightarrow>
         process rid onData h0 (Arrives (Some d) # fs) =
           (case process rid onData h0 fs of
              (r1, evs1, h1) \<Rightarrow>
                (r1, ReadJSON (Some d)
                     # Slog Warn ''Received unexpected data packet''
                         [(''got'', Str (ID d)), (''expected'', Str rid)] # evs1, h1)))"
proof -
  from Subscribe_events[OF S] obtain pre es post where evs: "evs = pre @ es @ post"
    and pre: "filter isOnData pre = []" and post: "filter isOnData post = []"
    and es: "es = [] \<and> h' = h
               \<or> (\<exists>s. reqID s = uuid w \<and> session w s onReady onData h = (r, es, h'))"
    by blast
  have nd: "OnData c p \<notin> set pre" "OnData c p \<notin> set post" for c p
    using pre post by (auto simp: filter_empty_conv)
  have quiet: "replay onData x xs = x" if "filter isOnData xs = []" for x xs
    using that unfolding replay_def
    by (induction xs arbitrary: x) (auto elim: isOnData.elims split: if_splits)
  have a: "\<exists>f \<in> set (frames w). dataFor (uuid w) p f" if m: "OnData c p \<in> set evs" for c p
  proof -
    from m evs nd have i: "OnData c p \<in> set es" by auto
    then obtain s where "reqID s = uuid w" "session w s onReady onData h = (r, es, h')"
      using es by auto
    from session_events[OF this(2) i] this(1) show ?thesis by auto
  qed
  have b: "h' = replay onData h evs"
  proof -
    have "h' = replay onData h es"
      using es by (auto simp: replay_Nil dest: session_replay)
    then show ?thesis using evs quiet[OF pre] quiet[OF post] by (simp add: replay_append)
  qed
  show ?thesis using a b by (auto simp: split: prod.splits)
qed

theorem only_matching_data_reaches_handler_witness:
  "Subscribe (scripted happyScript True) ''https://svc.example.com'' ''token'' succeeds
     keepAndStop [] = (Returns None, happyTrace, [Some result])
   \<and> OnData Background (Some result) \<in> set happyTrace
   \<and> (\<exists>f \<in> set happyScript. dataFor subID (Some result) f)
   \<and> replay keepAndStop [] happyTrace = [Some result]
   \<and> initLoop [Arrives (Some \<lparr>Type = ''ka'', Payload = None, ID = []\<rparr>)] =
       (Returns (Some (Errorf ''failed to read packet'' readSilent)),
        [ReadJSON (Some \<lparr>Type = ''ka'', Payload = None, ID = []\<rparr>),
         Slog Warn ''Received unexpected packet'' [(''type'', Str ''ka'')]], [])
   \<and> startLoop subID [Arrives (Some \<lparr>Type = ''ka'', Payload = None, ID = []\<rparr>)] =
       (Returns (Some (Errorf ''failed to read packet'' readSilent)),
        [ReadJSON (Some \<lparr>Type = ''ka'', Payload = None, ID = []\<rparr>)], [])
   \<and> process subID keepAndStop [] [Arrives (Some \<lparr>Type = ''ka'', Payload = None, ID = []\<rparr>)] =
       (Returns (Some (Errorf ''failed to read packet'' readSilent)),
        [ReadJSON (Some \<lparr>Type = ''ka'', Payload = None, ID = []\<rparr>)], [])
   \<and> process subID keepAndStop []
         [Arrives (Some \<lparr>Type = ''data'', Payload = Some result, ID = ''other''\<rparr>)] =
       (Returns (Some (Errorf ''failed to read packet'' readSilent)),
        [ReadJSON (Some \<lparr>Type = ''data'', Payload = Some result, ID = ''other''\<rparr>),
         Slog Warn ''Received unexpected data packet''
           [(''got'', Str ''other''), (''expected'', Str subID)]], [])"
proof -
  note t = only_matching_data_reaches_handler[OF run_happy,
      of "\<lparr>Type = ''ka'', Payload = None, ID = []\<rparr>" "[]" subID "[]"
         "\<lparr>Type = ''data'', Payload = Some result, ID = ''other''\<rparr>"]
  have m: "OnData Background (Some result) \<in> set happyTrace"
    by (simp add: happyTrace_def)
  have f: "frames (scripted happyScript True) = happyScript"
    "uuid (scripted happyScript True) = subID"
    by (simp_all add: scripted_def)
  have o: "''other'' \<noteq> subID" by (simp add: subID_def)
  from t m f have "\<exists>f \<in> set happyScript. dataFor subID (Some result) f" by auto
  moreover from t have "replay keepAndStop [] happyTrace = [Some result]" by simp
  ultimately show ?thesis using t m o run_happy by (simp add: unexpectedPacket_def)
qed

text \<open>
  C10. Every call of the data handler gets \<open>context.Background()\<close>, which is never done,
  whatever happens to the caller's context and to the cancel function of the operation;
  \<open>Subscribe\<close> does not depend on what the handler would do with any other context.
\<close>

theorem handler_gets_background_context:
  assumes S: "Subscribe w endpoint accessToken onReady onData h = (r, evs, h')"
  shows "(\<forall>c p. OnData c p \<in> set evs \<longrightarrow> c = Background \<and> \<not> isDone c callerDone cancelled)
    \<and> ((\<forall>x p. onData' x Background p = onData x Background p) \<longrightarrow>
         Subscribe w endpoint accessToken onReady onData' h = (r, evs, h'))"
proof -
  from Subscribe_events[OF S] obtain pre es post where evs: "evs = pre @ es @ post"
    and pre: "filter isOnData pre = []" and post: "filter isOnData post = []"
    and es: "es = [] \<and> h' = h
               \<or> (\<exists>s. reqID s = uuid w \<and> session w s onReady onData h = (r, es, h'))"
    by blast
  have nd: "OnData c p \<notin> set pre" "OnData c p \<notin> set post" for c p
    using pre post by (auto simp: filter_empty_conv)
  have a: "c = Background \<and> \<not> isDone c callerDone cancelled" if m: "OnData c p \<in> set evs" for c p
  proof -
    from m evs nd have i: "OnData c p \<in> set es" by auto
    then obtain s where "session w s onReady onData h = (r, es, h')"
      using es by auto
    from session_events[OF this i] show ?thesis by auto
  qed
  have b: "Subscribe w endpoint accessToken onReady onData' h = (r, evs, h')"
    if eq: "\<forall>x p. onData' x Background p = onData x Background p"
  proof -
    have P: "process rid onData' x fs = process rid onData x fs" for rid x fs
      using eq by (intro process_cong) simp
    have Q: "session w s onReady onData' h = session w s onReady onData h" for s
      unfolding session_def P by (rule refl)
    have "Subscribe w endpoint accessToken onReady onData' h =
          Subscribe w endpoint accessToken onReady onData h"
      unfolding Subscribe_def Q by (rule refl)
    then show ?thesis using S by simp
  qed
  show ?thesis using a b by blast
qed


theorem handler_gets_background_context_witness:
  "Subscribe (scripted happyScript True) ''https://svc.example.com'' ''token'' succeeds
     keepAndStop [] = (Returns None, happyTrace, [Some result])
   \<and> OnData Background (Some result) \<in> set happyTrace
   \<and> \<not> isDone Background True True
   \<and> isDone (WithCancel Caller) True True
   \<and> Subscribe (scripted happyScript True) ''https://svc.example.com'' ''token'' succeeds
       cancelAware [] = (Returns None, happyTrace, [Some result])"
proof -
  note t = handler_gets_background_context[OF run_happy, of True True cancelAware]
  have m: "OnData Background (Some result) \<in> set happyTrace"
    by (simp add: happyTrace_def)
  have "\<forall>x p. cancelAware x Background p = keepAndStop x Background p"
    by (simp add: cancelAware_def)
  with t m run_happy show ?thesis by simp
qed


text \<open>
  C7. \<open>initConnection\<close> first writes a \<open>connection_init\<close> message that has no payload and
  no identifier, then reads.  A \<open>connection_ack\<close> ends the handshake with success.  A
  \<open>connection_error\<close> ends it with an error that wraps \<open>ErrUnexpected\<close> and carries the
  payload.  Any other kind is logged and the loop reads on.  When the rejection arrives
  after messages of other kinds only, \<open>Subscribe\<close> returns that error wrapped as
  \<open>failed to init connection\<close>, the trigger is never called, the handler's state is
  untouched, and the deferred close runs.
\<close>

theorem handshake_ack_reject_tolerate:
  "initConnection Sent fs =
     (case initLoop fs of
        (r1, evs1, fs1) \<Rightarrow>
          (r1, WriteJSON \<lparr>Type = ''connection_init'', Payload = None, ID = []\<rparr> # evs1, fs1))
   \<and> (Type ack = ''connection_ack'' \<longrightarrow>
        initLoop (Arrives (Some ack) # fs) = (Returns None, [ReadJSON (Some ack)], fs))
   \<and> (Type rej = ''connection_error'' \<longrightarrow>
        initLoop (Arrives (Some rej) # fs) =
          (Returns (Some (ErrorfPayload ErrUnexpected ''connection error'' (Payload rej))),
           [ReadJSON (Some rej)], fs))
   \<and> (Type pkt \<noteq> ''connection_ack'' \<and> Type pkt \<noteq> ''connection_error'' \<longrightarrow>
        initLoop (Arrives (Some pkt) # fs) =
          (case initLoop fs of
             (r1, evs1, fs1) \<Rightarrow> (r1, ReadJSON (Some pkt) # unexpectedPacket pkt # evs1, fs1)))
   \<and> (parsed w = Inr u \<and> dialed w = None \<and> initSend w = Sent
        \<and> frames w = map (\<lambda>m. Arrives (Some m)) others @ Arrives (Some rej) # rest
        \<and> list_all (\<lambda>m. Type m \<noteq> ''connection_ack'' \<and> Type m \<noteq> ''connection_error'') others
        \<and> Type rej = ''connection_error''
        \<and> Subscribe w endpoint accessToken onReady onData h = (r, evs, h') \<longrightarrow>
        r = Returns (Some (Errorf ''failed to init connection''
                             (ErrorfPayload ErrUnexpected ''connection error'' (Payload rej))))
        \<and> Is (Errorf ''failed to init connection''
                 (ErrorfPayload ErrUnexpected ''connection error'' (Payload rej))) ErrUnexpected
        \<and> filter isOnReady evs = [] \<and> filter isOnData evs = [] \<and> h' = h
        \<and> filter isClose evs \<noteq> [] \<and> Close Deferred \<in> set evs)"
proof -
  have a: "initConnection Sent fs =
     (case initLoop fs of
        (r1, evs1, fs1) \<Rightarrow>
          (r1, WriteJSON \<lparr>Type = ''connection_init'', Payload = None, ID = []\<rparr> # evs1, fs1))"
    by (simp add: initConnection_def split: prod.splits)
  have e: "r = Returns (Some (Errorf ''failed to init connection''
                             (ErrorfPayload ErrUnexpected ''connection error'' (Payload rej))))
        \<and> filter isOnReady evs = [] \<and> filter isOnData evs = [] \<and> h' = h
        \<and> filter isClose evs \<noteq> [] \<and> Close Deferred \<in> set evs"
    if p: "parsed w = Inr u" and d: "dialed w = None" and i: "initSend w = Sent"
      and f: "frames w = map (\<lambda>m. Arrives (Some m)) others @ Arrives (Some rej) # rest"
      and o: "list_all (\<lambda>m. Type m \<noteq> ''connection_ack'' \<and> Type m \<noteq> ''connection_error'') others"
      and t: "Type rej = ''connection_error''"
      and S: "Subscribe w endpoint accessToken onReady onData h = (r, evs, h')"
  proof -
    let ?s = "\<lparr>authExt = authExtOf (Hostname u) accessToken, reqID = uuid w\<rparr>"
    let ?err = "ErrorfPayload ErrUnexpected ''connection error'' (Payload rej)"
    let ?es = "WriteJSON \<lparr>Type = ''connection_init'', Payload = None, ID = []\<rparr>
                # concat (map (\<lambda>m. [ReadJSON (Some m), unexpectedPacket m]) others)
                @ [ReadJSON (Some rej)]"
    have "initLoop (frames w) =
            (Returns (Some ?err),
             concat (map (\<lambda>m. [ReadJSON (Some m), unexpectedPacket m]) others)
               @ [ReadJSON (Some rej)], rest)"
      unfolding f using t o by (simp add: initLoop_tolerates)
    then have ic: "initConnection (initSend w) (frames w) = (Returns (Some ?err), ?es, rest)"
      using i by (simp add: initConnection_def)
    have ses: "session w ?s onReady onData h =
                 (Returns (Some (Errorf ''failed to init connection'' ?err)), ?es, h)"
      by (simp add: session_def ic)
    have w: "list_all wire ?es"
      by (auto simp: list_all_iff unexpectedPacket_def)
    from S Subscribe_dialed[OF p d, of endpoint accessToken onReady onData h] ses
    have r: "r = Returns (Some (Errorf ''failed to init connection'' ?err))" and h: "h' = h"
      and evs: "evs = [Slog Debug ''Connecting to websocket'' [(''endpoint'', Str (fst (GenerateWSAddr u)))],
               Dial (fst (GenerateWSAddr u)) [''graphql-ws'', subprotocol (authExtOf (Hostname u) accessToken)]]
              @ ?es
              @ (if doneBeforeReturn w \<and> Close Watcher \<notin> set ?es then [Close Watcher] else [])
              @ [Close Deferred, Cancel]
              @ (if watcherRuns w \<and> \<not> doneBeforeReturn w \<and> Close Watcher \<notin> set ?es
                 then [Close Watcher] else [])"
      by simp_all
    have "filter isOnReady evs = []" "filter isOnData evs = []"
      unfolding evs using all_wire_no_OnReady[OF w] all_wire_no_OnData[OF w] by simp_all
    moreover have "Close Deferred \<in> set evs" "filter isClose evs \<noteq> []"
      unfolding evs by (simp_all add: filter_empty_conv)
    ultimately show ?thesis using r h by simp
  qed
  show ?thesis using a e by (auto split: prod.splits)
qed


theorem handshake_ack_reject_tolerate_witness:
  "initConnection Sent [] =
     (Returns (Some (Errorf ''failed to read packet'' readSilent)),
      [WriteJSON \<lparr>Type = ''connection_init'', Payload = None, ID = []\<rparr>], [])
   \<and> initLoop [Arrives (Some \<lparr>Type = ''connection_ack'', Payload = None, ID = []\<rparr>)] =
       (Returns None, [ReadJSON (Some \<lparr>Type = ''connection_ack'', Payload = None, ID = []\<rparr>)], [])
   \<and> initLoop [Arrives (Some \<lparr>Type = ''connection_error'', Payload = Some rejected, ID = []\<rparr>)] =
       (Returns (Some (ErrorfPayload ErrUnexpected ''connection error'' (Some rejected))),
        [ReadJSON (Some \<lparr>Type = ''connection_error'', Payload = Some rejected, ID = []\<rparr>)], [])
   \<and> initLoop [Arrives (Some \<lparr>Type = ''ka'', Payload = None, ID = []\<rparr>)] =
       (Returns (Some (Errorf ''failed to read packet'' readSilent)),
        [ReadJSON (Some \<lparr>Type = ''ka'', Payload = None, ID = []\<rparr>),
         Slog Warn ''Received unexpected packet'' [(''type'', Str ''ka'')]], [])
   \<and> Subscribe (scripted [msg ''ka'' [] None, msg ''connection_error'' [] (Some rejected)] True)
        ''https://svc.example.com'' ''token'' succeeds keepAndStop [] =
      (Returns (Some (Errorf ''failed to init connection''
                        (ErrorfPayload ErrUnexpected ''connection error'' (Some rejected)))),
       dialling
       @ [ReadJSON (Some \<lparr>Type = ''ka'', Payload = None, ID = []\<rparr>),
          Slog Warn ''Received unexpected packet'' [(''type'', Str ''ka'')],
          ReadJSON (Some \<lparr>Type = ''connection_error'', Payload = Some rejected, ID = []\<rparr>),
          Close Deferred, Cancel, Close Watcher],
       [])
   \<and> Is (Errorf ''failed to init connection''
           (ErrorfPayload ErrUnexpected ''connection error'' (Some rejected))) ErrUnexpected
   \<and> filter isOnReady
        (dialling
         @ [ReadJSON (Some \<lparr>Type = ''ka'', Payload = None, ID = []\<rparr>),
            Slog Warn ''Received unexpected packet'' [(''type'', Str ''ka'')],
            ReadJSON (Some \<lparr>Type = ''connection_error'', Payload = Some rejected, ID = []\<rparr>),
            Close Deferred, Cancel, Close Watcher]) = []"
proof -
  let ?w = "scripted [msg ''ka'' [] None, msg ''connection_error'' [] (Some rejected)] True"
  note t = handshake_ack_reject_tolerate[
      of "[]" "\<lparr>Type = ''connection_ack'', Payload = None, ID = []\<rparr>"
         "\<lparr>Type = ''connection_error'', Payload = Some rejected, ID = []\<rparr>"
         "\<lparr>Type = ''ka'', Payload = None, ID = []\<rparr>"
         ?w exampleURL "[\<lparr>Type = ''ka'', Payload = None, ID = []\<rparr>]" "[]"
         "''https://svc.example.com''" "''token''" succeeds keepAndStop "[]"]
  have w: "parsed ?w = Inr exampleURL" "dialed ?w = None" "initSend ?w = Sent"
    "frames ?w = map (\<lambda>m. Arrives (Some m)) [\<lparr>Type = ''ka'', Payload = None, ID = []\<rparr>]
       @ Arrives (Some \<lparr>Type = ''connection_error'', Payload = Some rejected, ID = []\<rparr>) # []"
    by (simp_all add: scripted_def msg_def)
  from t w run_rejected show ?thesis
    by (simp add: unexpectedPacket_def dialling_def)
qed


text \<open>
  C3.  As stated the claim fails: when the operation is cancelled from outside while a
  read is blocked, the watcher goroutine closes the connection, the read fails, and the
  deferred close runs as well, so \<open>ws.Close\<close> is called twice.  It is also called twice
  in the plain successful run, once the deferred \<open>cancel\<close> has woken the watcher.
\<close>

theorem close_called_twice:
  "fst (Subscribe (scripted cancelledScript False) ''https://svc.example.com'' ''token''
          succeeds keepAndStop []) =
     Returns (Some (Errorf ''failed to process subscription''
                      (Errorf ''failed to read packet''
                         (Errorf ''failed to read JSON''
                            (Lib ''use of closed network connection'')))))
   \<and> filter isClose
        (fst (snd (Subscribe (scripted cancelledScript False) ''https://svc.example.com''
                     ''token'' succeeds keepAndStop []))) =
      [Close Watcher, Close Deferred]
   \<and> length (filter isClose
        (fst (snd (Subscribe (scripted cancelledScript False) ''https://svc.example.com''
                     ''token'' succeeds keepAndStop [])))) \<noteq> 1
   \<and> filter isClose
        (fst (snd (Subscribe (scripted happyScript True) ''https://svc.example.com''
                     ''token'' succeeds keepAndStop []))) =
      [Close Deferred, Close Watcher]"
  by (simp add: run_cancelled run_happy acked_def dialling_def happyTrace_def)

text \<open>
  C3, amended.  Once the URL is parsed and the dial has succeeded, every run of
  \<open>Subscribe\<close>, whatever its outcome, calls the deferred \<open>ws.Close\<close> exactly once, and
  the watcher goroutine calls \<open>ws.Close\<close> at most once more, so the connection is closed
  once or twice, and twice whenever the watcher still runs after the return.  The
  watcher's close comes first exactly when the context became done before \<open>Subscribe\<close>
  returned: at a read that met the closed connection, or in the last stretch of the run
  (\<open>doneBeforeReturn\<close>); otherwise it comes after the deferred close if the watcher still
  runs, and not at all if it does not.  In particular, when a run has read the frames
  \<open>pre\<close> and waits for the next one, and the context becomes done then, the run ends with
  an error and the connection is closed twice, by the watcher and then by the deferred
  call.  When the URL does not parse or the dial fails there is no connection and nothing
  is closed.
\<close>

theorem close_called_once_or_twice:
  assumes S: "Subscribe w endpoint accessToken onReady onData h = (r, evs, h')"
  shows "(parsed w = Inr u \<and> dialed w = None \<longrightarrow>
            length (filter (\<lambda>e. e = Close Deferred) evs) = 1
          \<and> length (filter (\<lambda>e. e = Close Watcher) evs) \<le> 1
          \<and> (filter isClose evs = [Close Deferred]
              \<or> filter isClose evs = [Close Watcher, Close Deferred]
              \<or> filter isClose evs = [Close Deferred, Close Watcher])
          \<and> (watcherRuns w \<longrightarrow> length (filter isClose evs) = 2)
          \<and> filter isClose evs =
              (if doneBeforeReturn w
                  \<or> Close Watcher \<in> set (fst (snd (session w
                        \<lparr>authExt = authExtOf (Hostname u) accessToken, reqID = uuid w\<rparr>
                        onReady onData h)))
               then [Close Watcher, Close Deferred]
               else if watcherRuns w then [Close Deferred, Close Watcher]
               else [Close Deferred])
          \<and> (frames w = pre @ f # rest \<and> list_all arrives pre \<and> cancels f
               \<and> waiting (fst (Subscribe (w\<lparr>frames := pre\<rparr>) endpoint accessToken
                                  onReady onData h)) \<longrightarrow>
              filter isClose evs = [Close Watcher, Close Deferred]
              \<and> (\<exists>e. r = Returns (Some e))))
       \<and> ((\<exists>e. parsed w = Inl e) \<or> (\<exists>e. dialed w = Some e) \<longrightarrow> filter isClose evs = [])"
proof -
  have split: "filter (\<lambda>e. e = Close c) xs = filter (\<lambda>e. e = Close c) (filter isClose xs)"
    for c xs
    by (induction xs) auto
  have a: "length (filter (\<lambda>e. e = Close Deferred) evs) = 1
          \<and> length (filter (\<lambda>e. e = Close Watcher) evs) \<le> 1
          \<and> (filter isClose evs = [Close Deferred]
              \<or> filter isClose evs = [Close Watcher, Close Deferred]
              \<or> filter isClose evs = [Close Deferred, Close Watcher])
          \<and> (watcherRuns w \<longrightarrow> length (filter isClose evs) = 2)
          \<and> filter isClose evs =
              (if doneBeforeReturn w
                  \<or> Close Watcher \<in> set (fst (snd (session w
                        \<lparr>authExt = authExtOf (Hostname u) accessToken, reqID = uuid w\<rparr>
                        onReady onData h)))
               then [Close Watcher, Close Deferred]
               else if watcherRuns w then [Close Deferred, Close Watcher]
               else [Close Deferred])
          \<and> (frames w = pre @ f # rest \<and> list_all arrives pre \<and> cancels f
               \<and> waiting (fst (Subscribe (w\<lparr>frames := pre\<rparr>) endpoint accessToken
                                  onReady onData h)) \<longrightarrow>
              filter isClose evs = [Close Watcher, Close Deferred]
              \<and> (\<exists>e. r = Returns (Some e)))"
    if p: "parsed w = Inr u" and d: "dialed w = None"
  proof -
    let ?s = "\<lparr>authExt = authExtOf (Hostname u) accessToken, reqID = uuid w\<rparr>"
    obtain rs es hs where ses: "session w ?s onReady onData h = (rs, es, hs)"
      by (cases "session w ?s onReady onData h") auto
    have r: "r = rs"
      using S ses Subscribe_dialed[OF p d, of endpoint accessToken onReady onData h] by auto
    have evs: "filter isClose evs =
        filter isClose es
          @ (if doneBeforeReturn w \<and> Close Watcher \<notin> set es then [Close Watcher] else [])
          @ Close Deferred
          # (if watcherRuns w \<and> \<not> doneBeforeReturn w \<and> Close Watcher \<notin> set es
             then [Close Watcher] else [])"
      using S ses Subscribe_dialed[OF p d, of endpoint accessToken onReady onData h] by auto
    have m: "Close Watcher \<in> set es \<longleftrightarrow> filter isClose es = [Close Watcher]"
      using session_closes[OF ses]
    proof
      assume n: "filter isClose es = []"
      then have "Close Watcher \<notin> set es" by (auto simp: filter_empty_conv)
      with n show ?thesis by simp
    next
      assume o: "filter isClose es = [Close Watcher]"
      then have "Close Watcher \<in> set (filter isClose es)" by simp
      then have "Close Watcher \<in> set es" by simp
      with o show ?thesis by simp
    qed
    have n: "Close Watcher \<notin> set es \<longleftrightarrow> filter isClose es = []"
      using session_closes[OF ses] m by auto
    have eq: "filter isClose evs =
              (if doneBeforeReturn w \<or> Close Watcher \<in> set es
               then [Close Watcher, Close Deferred]
               else if watcherRuns w then [Close Deferred, Close Watcher]
               else [Close Deferred])"
    proof (cases "Close Watcher \<in> set es")
      case True
      with m have "filter isClose es = [Close Watcher]" by simp
      with True show ?thesis unfolding evs by simp
    next
      case False
      with n have "filter isClose es = []" by simp
      with False show ?thesis unfolding evs by simp
    qed
    then have c:
      "(filter isClose evs = [Close Deferred]
        \<or> filter isClose evs = [Close Watcher, Close Deferred]
        \<or> filter isClose evs = [Close Deferred, Close Watcher])
       \<and> (watcherRuns w \<longrightarrow> length (filter isClose evs) = 2)"
      by simp
    from c have "length (filter (\<lambda>e. e = Close Deferred) (filter isClose evs)) = 1
          \<and> length (filter (\<lambda>e. e = Close Watcher) (filter isClose evs)) \<le> 1"
      by (auto simp del: filter_filter)
    then have cnt: "length (filter (\<lambda>e. e = Close Deferred) evs) = 1
          \<and> length (filter (\<lambda>e. e = Close Watcher) evs) \<le> 1"
      by (simp only: split[symmetric])
    have eq': "filter isClose evs =
              (if doneBeforeReturn w
                  \<or> Close Watcher \<in> set (fst (snd (session w ?s onReady onData h)))
               then [Close Watcher, Close Deferred]
               else if watcherRuns w then [Close Deferred, Close Watcher]
               else [Close Deferred])"
      using eq ses by simp
    have cut: "filter isClose evs = [Close Watcher, Close Deferred] \<and> (\<exists>e. r = Returns (Some e))"
      if f: "frames w = pre @ f # rest" and ar: "list_all arrives pre" and cn: "cancels f"
        and wt: "waiting (fst (Subscribe (w\<lparr>frames := pre\<rparr>) endpoint accessToken
                                  onReady onData h))"
    proof -
      obtain r0 es0 h0 where s0: "session (w\<lparr>frames := pre\<rparr>) ?s onReady onData h = (r0, es0, h0)"
        by (cases "session (w\<lparr>frames := pre\<rparr>) ?s onReady onData h") auto
      have "fst (Subscribe (w\<lparr>frames := pre\<rparr>) endpoint accessToken onReady onData h) = r0"
        using Subscribe_result[of "w\<lparr>frames := pre\<rparr>" u endpoint accessToken onReady onData h]
          p d s0 by simp
      with wt have w0: "waiting r0" by simp
      have "w\<lparr>frames := pre @ f # rest\<rparr> = w" using f by simp
      with session_cancelled[OF ar cn s0 w0, of rest]
      obtain e where "session w ?s onReady onData h = (Returns (Some e), es0 @ [Close Watcher], h0)"
        by auto
      with ses have "rs = Returns (Some e)" "Close Watcher \<in> set es" by auto
      with eq r show ?thesis by auto
    qed
    show ?thesis using cnt c eq' cut by blast
  qed
  have b: "filter isClose evs = []" if "(\<exists>e. parsed w = Inl e) \<or> (\<exists>e. dialed w = Some e)"
    using that S by (auto simp: Subscribe_def Let_def split: sum.splits)
  show ?thesis using a b by blast
qed


theorem close_called_once_or_twice_witness:
  "Subscribe (scripted cancelledScript False) ''https://svc.example.com'' ''token'' succeeds
     keepAndStop [] =
   (Returns (Some (Errorf ''failed to process subscription''
                     (Errorf ''failed to read packet''
                        (Errorf ''failed to read JSON''
                           (Lib ''use of closed network connection''))))),
    acked @ [Close Watcher, Close Deferred, Cancel], [])
   \<and> cancelledScript =
       [msg ''connection_ack'' [] None, msg ''start_ack'' subID None]
       @ Interrupted (Lib ''use of closed network connection'') # []
   \<and> list_all arrives [msg ''connection_ack'' [] None, msg ''start_ack'' subID None]
   \<and> cancels (Interrupted (Lib ''use of closed network connection''))
   \<and> waiting (fst (Subscribe
                     (scripted [msg ''connection_ack'' [] None, msg ''start_ack'' subID None] False)
                     ''https://svc.example.com'' ''token'' succeeds keepAndStop []))
   \<and> length (filter (\<lambda>e. e = Close Deferred) (acked @ [Close Watcher, Close Deferred, Cancel])) = 1
   \<and> length (filter (\<lambda>e. e = Close Watcher) (acked @ [Close Watcher, Close Deferred, Cancel])) \<le> 1
   \<and> filter isClose (acked @ [Close Watcher, Close Deferred, Cancel]) = [Close Watcher, Close Deferred]
   \<and> Subscribe ((scripted stoppedScript False)\<lparr>doneBeforeReturn := True\<rparr>)
        ''https://svc.example.com'' ''token'' succeeds keepAndStop [] =
      (Returns None,
       delivered @ [Slog Debug ''Data handler requested exit'' [],
                    Close Watcher, Close Deferred, Cancel],
       [Some result])
   \<and> doneBeforeReturn ((scripted stoppedScript False)\<lparr>doneBeforeReturn := True\<rparr>)
   \<and> filter isClose
        (delivered @ [Slog Debug ''Data handler requested exit'' [],
                      Close Watcher, Close Deferred, Cancel]) =
      [Close Watcher, Close Deferred]
   \<and> busyScript = stoppedScript @ Cancelled (Lib ''use of closed network connection'') # []
   \<and> list_all arrives stoppedScript
   \<and> cancels (Cancelled (Lib ''use of closed network connection''))
   \<and> waiting (fst (Subscribe (scripted stoppedScript False) ''https://svc.example.com''
                     ''token'' succeeds keepAndGoOn []))
   \<and> filter isClose (delivered @ [Close Watcher, Close Deferred, Cancel]) =
      [Close Watcher, Close Deferred]
   \<and> watcherRuns (scripted happyScript True)
   \<and> filter isClose happyTrace = [Close Deferred, Close Watcher]
   \<and> filter isClose (acked @ [Close Deferred, Cancel]) = [Close Deferred]
   \<and> dialed dialFails = Some (Lib ''bad handshake'')
   \<and> filter isClose
        [Slog Debug ''Connecting to websocket''
           [(''endpoint'', Str (fst (GenerateWSAddr exampleURL)))],
         Dial (fst (GenerateWSAddr exampleURL))
           [''graphql-ws'', subprotocol (authExtOf (Hostname exampleURL) ''token'')],
         Cancel] = []"
proof -
  let ?pre = "[msg ''connection_ack'' [] None, msg ''start_ack'' subID None]"
  let ?closed = "Lib ''use of closed network connection''"
  note cancelled = close_called_once_or_twice[OF run_cancelled,
      of exampleURL ?pre "Interrupted ?closed" "[]"]
  note stopped = close_called_once_or_twice[OF run_stopped_cancelled, of exampleURL]
  note busy = close_called_once_or_twice[OF run_busy_cancelled,
      of exampleURL stoppedScript "Cancelled ?closed" "[]"]
  note happy = close_called_once_or_twice[OF run_happy, of exampleURL]
  note waits = close_called_once_or_twice[OF run_waiting, of exampleURL]
  note undialled = close_called_once_or_twice[OF run_dialFails, of exampleURL]
  have w: "parsed (scripted fs b) = Inr exampleURL" "dialed (scripted fs b) = None"
    "watcherRuns (scripted fs b) = b" "doneBeforeReturn (scripted fs b) = False"
    "frames (scripted fs b) = fs" "(scripted fs b)\<lparr>frames := gs\<rparr> = scripted gs b" for fs gs b
    by (simp_all add: scripted_def)
  have cs: "cancelledScript = ?pre @ Interrupted ?closed # []"
    by (simp add: cancelledScript_def)
  have bs: "busyScript = stoppedScript @ Cancelled ?closed # []"
    by (simp add: busyScript_def)
  have ar: "list_all arrives ?pre" "list_all arrives stoppedScript"
    by (simp_all add: stoppedScript_def msg_def)
  have w1: "waiting (fst (Subscribe (scripted ?pre False) ''https://svc.example.com''
                     ''token'' succeeds keepAndStop []))"
    by (simp add: run_waiting waiting_def silent_def)
  have w2: "waiting (fst (Subscribe (scripted stoppedScript False) ''https://svc.example.com''
                     ''token'' succeeds keepAndGoOn []))"
    by (simp add: scenario_defs stoppedScript_def waiting_def silent_def)
  have d: "dialed dialFails = Some (Lib ''bad handshake'')"
    by (simp add: dialFails_def)
  from cancelled w cs ar w1
  have c1: "length (filter (\<lambda>e. e = Close Deferred) (acked @ [Close Watcher, Close Deferred, Cancel])) = 1"
    "length (filter (\<lambda>e. e = Close Watcher) (acked @ [Close Watcher, Close Deferred, Cancel])) \<le> 1"
    "filter isClose (acked @ [Close Watcher, Close Deferred, Cancel]) = [Close Watcher, Close Deferred]"
    by simp_all
  from stopped w
  have c2: "filter isClose
        (delivered @ [Slog Debug ''Data handler requested exit'' [],
                      Close Watcher, Close Deferred, Cancel]) =
      [Close Watcher, Close Deferred]"
    by simp
  from busy w bs ar w2
  have c3: "filter isClose (delivered @ [Close Watcher, Close Deferred, Cancel]) =
      [Close Watcher, Close Deferred]"
    by simp
  have nw: "Close Watcher \<notin> set es" if "filter isClose es = []" for es
    using that by (auto simp: filter_empty_conv)
  from happy w
  have c4: "filter isClose happyTrace = [Close Deferred, Close Watcher]"
    by (simp add: happyTrace_def dialling_def)
  have c5: "filter isClose (acked @ [Close Deferred, Cancel]) = [Close Deferred]"
    using waits w by (simp add: acked_def dialling_def)
  from undialled d
  have c6: "filter isClose
        [Slog Debug ''Connecting to websocket''
           [(''endpoint'', Str (fst (GenerateWSAddr exampleURL)))],
         Dial (fst (GenerateWSAddr exampleURL))
           [''graphql-ws'', subprotocol (authExtOf (Hostname exampleURL) ''token'')],
         Cancel] = []"
    by simp
  show ?thesis
    using run_cancelled cs ar w1 c1 run_stopped_cancelled c2 bs w2 c3 c4 c5 d c6
    by (simp add: w)
qed


text \<open>
  C4.  The code does not do what the claim says.  An \<open>error\<close> message without a payload
  makes \<open>start\<close> and \<open>process\<close> dereference the nil \<open>pkt.Payload\<close> (lines 256 and 286):
  the loop panics instead of returning the fatal error, and \<open>Subscribe\<close> panics with it.
\<close>

theorem error_without_payload_panics:
  "startLoop rid (Arrives (Some \<lparr>Type = ''error'', Payload = None, ID = i\<rparr>) # fs) =
     (Panics, [ReadJSON (Some \<lparr>Type = ''error'', Payload = None, ID = i\<rparr>)], fs)
   \<and> process rid onData h (Arrives (Some \<lparr>Type = ''error'', Payload = None, ID = i\<rparr>) # fs) =
     (Panics, [ReadJSON (Some \<lparr>Type = ''error'', Payload = None, ID = i\<rparr>)], h)
   \<and> fst (Subscribe (scripted [msg ''connection_ack'' [] None, msg ''error'' [] None] False)
            ''https://svc.example.com'' ''token'' succeeds keepAndStop []) = Panics"
  by (simp add: run_error_without_payload)

text \<open>
  C6.  The code does not do what the claim says for every \<open>data\<close> message of the
  subscription: one without a payload makes \<open>process\<close> dereference the nil
  \<open>pkt.Payload\<close> in the log line before the handler (line 298), so the loop panics and the
  handler is not called.
\<close>

theorem data_without_payload_panics:
  "process rid onData h (Arrives (Some \<lparr>Type = ''data'', Payload = None, ID = rid\<rparr>) # fs) =
     (Panics, [ReadJSON (Some \<lparr>Type = ''data'', Payload = None, ID = rid\<rparr>)], h)
   \<and> Subscribe (scripted [msg ''connection_ack'' [] None, msg ''start_ack'' subID None,
                          msg ''data'' subID None] False)
        ''https://svc.example.com'' ''token'' succeeds keepAndStop [] =
      (Panics,
       acked @ [ReadJSON (Some \<lparr>Type = ''data'', Payload = None, ID = subID\<rparr>),
                Close Deferred, Cancel], [])
   \<and> filter isOnData
        (acked @ [ReadJSON (Some \<lparr>Type = ''data'', Payload = None, ID = subID\<rparr>),
                  Close Deferred, Cancel]) = []"
  by (simp add: run_data_without_payload acked_def dialling_def)

text \<open>
  C2.  \<open>GenerateWSAddr\<close> on a URL whose host contains both \<open>.appsync-api.\<close> and
  \<open>.amazonaws.\<close> replaces the first \<open>.appsync-api.\<close> of the host by
  \<open>.appsync-realtime-api.\<close> and keeps the path; on any other host it keeps the host and
  appends \<open>/realtime\<close> to the path.  The scheme \<open>https\<close> becomes \<open>wss\<close> and \<open>http\<close>
  becomes \<open>ws\<close>.  The result is the rendering of the rewritten URL, which for a plain
  endpoint address is scheme, \<open>://\<close>, host and path.  The two addresses of the
  specification give the two results it names.
\<close>

theorem realtime_address_derivation:
  "(managed (Host u) \<longrightarrow>
      Host (snd (GenerateWSAddr u))
        = Replace1 (Host u) ''.appsync-api.'' ''.appsync-realtime-api.''
      \<and> (\<exists>a b. Host u = a @ ''.appsync-api.'' @ b
                \<and> Host (snd (GenerateWSAddr u)) = a @ ''.appsync-realtime-api.'' @ b)
      \<and> Path (snd (GenerateWSAddr u)) = Path u)
   \<and> (\<not> managed (Host u) \<longrightarrow>
        Host (snd (GenerateWSAddr u)) = Host u
        \<and> Path (snd (GenerateWSAddr u)) = Path u @ ''/realtime'')
   \<and> (Scheme u = ''https'' \<longrightarrow> Scheme (snd (GenerateWSAddr u)) = ''wss'')
   \<and> (Scheme u = ''http'' \<longrightarrow> Scheme (snd (GenerateWSAddr u)) = ''ws'')
   \<and> fst (GenerateWSAddr u) = String (snd (GenerateWSAddr u))
   \<and> (Parse raw = Some u \<longrightarrow>
        fst (GenerateWSAddr u) =
          Scheme (snd (GenerateWSAddr u)) @ ''://'' @ Host (snd (GenerateWSAddr u))
            @ Path (snd (GenerateWSAddr u)))
   \<and> map_option (fst \<circ> GenerateWSAddr) (Parse ''https://svc.example.com'')
       = Some ''wss://svc.example.com/realtime''
   \<and> map_option (fst \<circ> GenerateWSAddr)
         (Parse ''https://x.appsync-api.us-east-1.amazonaws.com/graphql'')
       = Some ''wss://x.appsync-realtime-api.us-east-1.amazonaws.com/graphql''"
proof -
  have m: "\<exists>a b. Host u = a @ ''.appsync-api.'' @ b
                \<and> Host (snd (GenerateWSAddr u)) = a @ ''.appsync-realtime-api.'' @ b"
    if "managed (Host u)"
    using managed_rewrite[OF that] that by (simp add: GenerateWSAddr_fields)
  have e1: "map_option (fst \<circ> GenerateWSAddr) (Parse ''https://svc.example.com'')
       = Some ''wss://svc.example.com/realtime''"
  proof -
    have "\<not> managed (Host exampleURL)"
      by (simp add: managed_def exampleURL_def HasPrefix_def)
    then show ?thesis
      using GenerateWSAddr_plain[OF Parse_example]
      by (simp add: Parse_example GenerateWSAddr_fields exampleURL_def)
  qed
  have e2: "map_option (fst \<circ> GenerateWSAddr)
         (Parse ''https://x.appsync-api.us-east-1.amazonaws.com/graphql'')
       = Some ''wss://x.appsync-realtime-api.us-east-1.amazonaws.com/graphql''"
  proof -
    have "managed ''x.appsync-api.us-east-1.amazonaws.com''"
      by (simp add: managed_def HasPrefix_def)
    then show ?thesis
      using GenerateWSAddr_plain[OF Parse_managed]
      by (simp add: Parse_managed GenerateWSAddr_fields exampleURL_def HasPrefix_def)
  qed
  show ?thesis
    using m e1 e2 GenerateWSAddr_plain[of raw u]
    by (simp add: GenerateWSAddr_fields)
qed

theorem realtime_address_derivation_witness:
  "managed ''x.appsync-api.us-east-1.amazonaws.com''
   \<and> Host (snd (GenerateWSAddr
        (exampleURL\<lparr>Host := ''x.appsync-api.us-east-1.amazonaws.com'', Path := ''/graphql''\<rparr>)))
       = ''x.appsync-realtime-api.us-east-1.amazonaws.com''
   \<and> Path (snd (GenerateWSAddr
        (exampleURL\<lparr>Host := ''x.appsync-api.us-east-1.amazonaws.com'', Path := ''/graphql''\<rparr>)))
       = ''/graphql''
   \<and> \<not> managed ''svc.example.com''
   \<and> Host (snd (GenerateWSAddr exampleURL)) = ''svc.example.com''
   \<and> Path (snd (GenerateWSAddr exampleURL)) = ''/realtime''
   \<and> Scheme (snd (GenerateWSAddr exampleURL)) = ''wss''
   \<and> Scheme (snd (GenerateWSAddr (exampleURL\<lparr>Scheme := ''http''\<rparr>))) = ''ws''
   \<and> Parse ''https://svc.example.com'' = Some exampleURL
   \<and> fst (GenerateWSAddr exampleURL) = ''wss://svc.example.com/realtime''"
proof -
  let ?m = "exampleURL\<lparr>Host := ''x.appsync-api.us-east-1.amazonaws.com'', Path := ''/graphql''\<rparr>"
  note managedCase = realtime_address_derivation[of ?m "[]"]
  note plainCase = realtime_address_derivation[of exampleURL "''https://svc.example.com''"]
  note httpCase = realtime_address_derivation[of "exampleURL\<lparr>Scheme := ''http''\<rparr>" "[]"]
  have a: "managed ''x.appsync-api.us-east-1.amazonaws.com''" "\<not> managed ''svc.example.com''"
    by (simp_all add: managed_def HasPrefix_def)
  have h: "Host ?m = ''x.appsync-api.us-east-1.amazonaws.com''" "Path ?m = ''/graphql''"
    "Host exampleURL = ''svc.example.com''" "Path exampleURL = []"
    "Scheme exampleURL = ''https''" "Scheme (exampleURL\<lparr>Scheme := ''http''\<rparr>) = ''http''"
    by (simp_all add: exampleURL_def)
  have r: "Replace1 ''x.appsync-api.us-east-1.amazonaws.com'' ''.appsync-api.'' ''.appsync-realtime-api.''
        = ''x.appsync-realtime-api.us-east-1.amazonaws.com''"
    by (simp add: HasPrefix_def)
  from managedCase plainCase httpCase a h r Parse_example show ?thesis
    by simp
qed

text \<open>
  C9.  As stated the claim fails: \<open>GenerateWSAddr\<close> writes to the URL it is handed.
  After one call the URL is no longer the one that was parsed, and a second call on it
  returns another address, with the plain scheme and the suffix twice.
\<close>

theorem derivation_rewrites_its_argument:
  "snd (GenerateWSAddr exampleURL) \<noteq> exampleURL
   \<and> fst (GenerateWSAddr exampleURL) = ''wss://svc.example.com/realtime''
   \<and> fst (GenerateWSAddr (snd (GenerateWSAddr exampleURL)))
       = ''ws://svc.example.com/realtime/realtime''
   \<and> fst (GenerateWSAddr (snd (GenerateWSAddr exampleURL))) \<noteq> fst (GenerateWSAddr exampleURL)"
proof -
  have a: "fst (GenerateWSAddr exampleURL) = ''wss://svc.example.com/realtime''"
    using GenerateWSAddr_plain[OF Parse_example]
    by (simp add: GenerateWSAddr_fields exampleURL_def managed_def HasPrefix_def)
  have "Parse ''wss://svc.example.com/realtime'' = Some (snd (GenerateWSAddr exampleURL))"
    by (simp add: Parse_def exampleURL_def HasPrefix_def isLetter_def schemeChar_def
        hostChar_def pathChar_def alnum_def byte_def ToLower_def GenerateWSAddr_fields
        managed_def)
  from GenerateWSAddr_plain[OF this]
  have b: "fst (GenerateWSAddr (snd (GenerateWSAddr exampleURL)))
       = ''ws://svc.example.com/realtime/realtime''"
    by (simp add: GenerateWSAddr_fields exampleURL_def managed_def HasPrefix_def)
  have c: "snd (GenerateWSAddr exampleURL) \<noteq> exampleURL"
  proof
    assume "snd (GenerateWSAddr exampleURL) = exampleURL"
    then have "Scheme (snd (GenerateWSAddr exampleURL)) = Scheme exampleURL" by simp
    then show False by (simp add: GenerateWSAddr_fields exampleURL_def)
  qed
  show ?thesis using a b c by simp
qed

text \<open>
  C9, amended.  \<open>GenerateWSAddr\<close> does no input or output and its result is a function
  of the fields of the URL it is handed, but it is not free of side effects: it
  overwrites \<open>Scheme\<close>, and \<open>Host\<close> or \<open>Path\<close>, of that URL and leaves the other fields
  alone, so the URL is never what it was before the call.  The address returned is the
  rendering of the rewritten URL and starts with its scheme: \<open>wss\<close> exactly when the
  scheme handed in is \<open>https\<close>, \<open>ws\<close> exactly when it is anything else.  A second call
  on the rewritten URL therefore gives the scheme \<open>ws\<close>.
\<close>

theorem derivation_is_a_function_that_rewrites:
  "snd (GenerateWSAddr u) =
     u\<lparr>Scheme := (if Scheme u = ''https'' then ''wss'' else ''ws''),
       Host := (if managed (Host u)
                then Replace1 (Host u) ''.appsync-api.'' ''.appsync-realtime-api.''
                else Host u),
       Path := (if managed (Host u) then Path u else Path u @ ''/realtime'')\<rparr>
   \<and> snd (GenerateWSAddr u) \<noteq> u
   \<and> fst (GenerateWSAddr u) = String (snd (GenerateWSAddr u))
   \<and> HasPrefix (fst (GenerateWSAddr u)) (Scheme (snd (GenerateWSAddr u)) @ '':'')
   \<and> (Scheme u = ''https'') = (Scheme (snd (GenerateWSAddr u)) = ''wss'')
   \<and> (Scheme u \<noteq> ''https'') = (Scheme (snd (GenerateWSAddr u)) = ''ws'')
   \<and> Scheme (snd (GenerateWSAddr (snd (GenerateWSAddr u)))) = ''ws''"
proof -
  let ?v = "snd (GenerateWSAddr u)"
  have ne: "?v \<noteq> u"
  proof (cases "managed (Host u)")
    case True
    from managed_rewrite[OF True] obtain a b where
      "Host u = a @ ''.appsync-api.'' @ b"
      "Replace1 (Host u) ''.appsync-api.'' ''.appsync-realtime-api.'' = a @ ''.appsync-realtime-api.'' @ b"
      by blast
    then have "length (Host ?v) \<noteq> length (Host u)"
      using True by (simp add: GenerateWSAddr_fields)
    then show ?thesis by auto
  next
    case False
    then have "length (Path ?v) \<noteq> length (Path u)"
      by (simp add: GenerateWSAddr_fields)
    then show ?thesis by auto
  qed
  have s: "Scheme ?v \<noteq> []" by (simp add: GenerateWSAddr_fields)
  have hp: "\<exists>t. hierPart v buf = buf @ t" for v buf
    by (simp add: hierPart_def Let_def)
  have p: "HasPrefix (String v) (Scheme v @ '':'')" if "Scheme v \<noteq> []" for v
  proof -
    obtain t where "hierPart v (Scheme v @ '':'') = (Scheme v @ '':'') @ t"
      using hp by blast
    then have "\<exists>t. String v = (Scheme v @ '':'') @ t"
      using that by (simp add: String_def Let_def)
    then show ?thesis by (auto simp: HasPrefix_def)
  qed
  show ?thesis
    using ne p[OF s] by (simp add: GenerateWSAddr_fields)
qed

theorem derivation_is_a_function_that_rewrites_witness:
  "snd (GenerateWSAddr exampleURL) =
     exampleURL\<lparr>Scheme := ''wss'', Path := ''/realtime''\<rparr>
   \<and> snd (GenerateWSAddr exampleURL) \<noteq> exampleURL
   \<and> HasPrefix (fst (GenerateWSAddr exampleURL)) ''wss:''
   \<and> Scheme (snd (GenerateWSAddr (exampleURL\<lparr>Scheme := ''http''\<rparr>))) = ''ws''
   \<and> Scheme (snd (GenerateWSAddr (snd (GenerateWSAddr exampleURL)))) = ''ws''"
proof -
  note secure = derivation_is_a_function_that_rewrites[of exampleURL]
  note plain = derivation_is_a_function_that_rewrites[of "exampleURL\<lparr>Scheme := ''http''\<rparr>"]
  have "\<not> managed (Host exampleURL)" "Scheme exampleURL = ''https''" "Path exampleURL = []"
    "Scheme (exampleURL\<lparr>Scheme := ''http''\<rparr>) \<noteq> ''https''"
    by (simp_all add: managed_def exampleURL_def HasPrefix_def)
  note f = this
  from secure f have 1: "snd (GenerateWSAddr exampleURL) =
     exampleURL\<lparr>Scheme := ''wss'', Path := ''/realtime''\<rparr>"
    by simp
  from secure have 2: "snd (GenerateWSAddr exampleURL) \<noteq> exampleURL"
    by blast
  from secure f have w: "Scheme (snd (GenerateWSAddr exampleURL)) = ''wss''"
    by blast
  from secure have "HasPrefix (fst (GenerateWSAddr exampleURL))
      (Scheme (snd (GenerateWSAddr exampleURL)) @ '':'')"
    by blast
  then have 3: "HasPrefix (fst (GenerateWSAddr exampleURL)) ''wss:''"
    by (simp add: w)
  from plain f have 4: "Scheme (snd (GenerateWSAddr (exampleURL\<lparr>Scheme := ''http''\<rparr>))) = ''ws''"
    by blast
  from secure have 5: "Scheme (snd (GenerateWSAddr (snd (GenerateWSAddr exampleURL)))) = ''ws''"
    by blast
  from 1 2 3 4 5 show ?thesis by blast
qed

text \<open>
  C8.  As stated the claim fails: \<open>json.Marshal\<close> writes every byte that is not
  well-formed UTF-8 as U+FFFD, so a credential that holds such a byte is not what a
  reader gets back, and two such credentials give one and the same sub-protocol string.
\<close>

theorem invalid_bytes_are_not_read_back:
  "readSubprotocol (subprotocol (authExtOf ''h'' [CHR 0xFF])) =
     Some [(''Authorization'', [CHR 0xEF, CHR 0xBF, CHR 0xBD]), (''host'', ''h'')]
   \<and> readSubprotocol (subprotocol (authExtOf ''h'' [CHR 0xFF])) \<noteq>
     Some [(''Authorization'', [CHR 0xFF]), (''host'', ''h'')]
   \<and> subprotocol (authExtOf ''h'' [CHR 0xFF]) = subprotocol (authExtOf ''h'' [CHR 0xFE])"
proof -
  have v: "ValidString ''h''" by (simp add: byte_def)
  have "Unmarshal_map (Marshal_map (authExtOf ''h'' [CHR 0xFF])) =
          Some [(''Authorization'', [CHR 0xEF, CHR 0xBF, CHR 0xBD]), (''host'', ''h'')]"
    unfolding Marshal_authExt
    by (rule Unmarshal_object, rule members_two)
      (rule unquote_quoted unquote_replacement valid_keys v)+
  then have a: "readSubprotocol (subprotocol (authExtOf ''h'' [CHR 0xFF])) =
     Some [(''Authorization'', [CHR 0xEF, CHR 0xBF, CHR 0xBD]), (''host'', ''h'')]"
    by (simp only: readSubprotocol_subprotocol)
  have "Marshal_map (authExtOf ''h'' [CHR 0xFF]) = Marshal_map (authExtOf ''h'' [CHR 0xFE])"
    by (simp only: Marshal_authExt quoted_invalid)
  then have b: "subprotocol (authExtOf ''h'' [CHR 0xFF]) = subprotocol (authExtOf ''h'' [CHR 0xFE])"
    by (simp only: subprotocol_raw)
  show ?thesis using a b by simp
qed

text \<open>
  C8, amended.  For every hostname and credential the sub-protocol string is \<open>header-\<close>
  followed by the unpadded URL-safe base64 of the compact JSON object with the members
  \<open>Authorization\<close> and \<open>host\<close>, in that order; it holds no padding character.  When the
  hostname and the credential are well-formed UTF-8, stripping the tag, decoding the
  base64 and parsing the object gives back exactly the two members as supplied.
\<close>

theorem subprotocol_round_trip:
  "subprotocol (authExtOf h c) = ''header-'' @ RawEncode (Marshal_map (authExtOf h c))
   \<and> Marshal_map (authExtOf h c) =
       ''{'' @ appendString ''Authorization'' @ '':'' @ appendString c @ '',''
         @ appendString ''host'' @ '':'' @ appendString h @ ''}''
   \<and> CHR ''='' \<notin> set (subprotocol (authExtOf h c))
   \<and> (ValidString h \<and> ValidString c \<longrightarrow>
        readSubprotocol (subprotocol (authExtOf h c)) = Some [(''Authorization'', c), (''host'', h)]
        \<and> map_option map_of (readSubprotocol (subprotocol (authExtOf h c)))
            = Some (map_of (authExtOf h c)))"
proof -
  have m: "Marshal_map (authExtOf h c) =
       ''{'' @ appendString ''Authorization'' @ '':'' @ appendString c @ '',''
         @ appendString ''host'' @ '':'' @ appendString h @ ''}''"
    unfolding Marshal_authExt by (simp add: appendString_def)
  have p: "CHR ''='' \<notin> set (subprotocol (authExtOf h c))"
    by (simp add: subprotocol_def ReplaceAll_pad)
  have r: "readSubprotocol (subprotocol (authExtOf h c)) = Some [(''Authorization'', c), (''host'', h)]"
    if "ValidString h" "ValidString c"
    using that by (simp only: readSubprotocol_subprotocol Unmarshal_authExt)
  have f: "map_of [(''Authorization'', c), (''host'', h)] = map_of (authExtOf h c)"
    by (auto simp: authExtOf_def fun_eq_iff)
  show ?thesis
    using m p r f subprotocol_raw[of "authExtOf h c"] by simp
qed

theorem subprotocol_round_trip_witness:
  "ValidString ''svc.example.com'' \<and> ValidString ''token''
   \<and> readSubprotocol (subprotocol (authExtOf ''svc.example.com'' ''token''))
       = Some [(''Authorization'', ''token''), (''host'', ''svc.example.com'')]"
proof -
  have v: "ValidString ''svc.example.com''" "ValidString ''token''"
    by (simp_all add: byte_def)
  with subprotocol_round_trip[of "''svc.example.com''" "''token''"] show ?thesis
    by blast
qed

end
